(* ===== verification/Prelude.thy ===== *)
theory Prelude
  imports Main "HOL-Library.Word"
begin

text \<open>
  Shared vocabulary of the development: the fixed-width integer types of common/types.h,
  C bit fields (allocated from the least significant bit, as the compilers the project
  targets do), little-endian bytes of a word, and generic facts about them that every
  component uses.  Two collections are filled along the development:
  \<open>bits\<close> holds the bit-by-bit readings of the model's word functions and
  \<open>layout\<close> the definitions that unfold a packed structure.
\<close>

unbundle bit_operations_syntax

named_theorems bits "bit-by-bit reading of the word functions of the model"
named_theorems layout "definitions of the packed views of a word"

section \<open>The integer types of common/types.h\<close>

type_synonym u8 = "8 word"
type_synonym u16 = "16 word"
type_synonym u32 = "32 word"
type_synonym u64 = "64 word"
type_synonym i16 = "16 word"
type_synonym i32 = "32 word"

section \<open>Equality of words by their bits\<close>

lemma all_less_Suc_numeral:
  "(\<forall>n < numeral k. P n) = (P (pred_numeral k) \<and> (\<forall>n < pred_numeral k. P n))"
  by (auto simp: numeral_eq_Suc less_Suc_eq)

lemma u32_eqI: "(\<forall>n < 32. bit v n = bit w n) \<Longrightarrow> v = w" for v w :: u32
  by (rule bit_word_eqI) simp

lemma u8_eqI: "(\<forall>n < 8. bit v n = bit w n) \<Longrightarrow> v = w" for v w :: u8
  by (rule bit_word_eqI) simp

lemma unat_mask: "unat (mask n :: 'a::len word) = mask (min LENGTH('a) n)"
  by (rule bit_eqI) (auto simp: bit_simps bit_unsigned_iff)

lemma take_bit_self_less: "take_bit n w = w \<Longrightarrow> unat w < 2 ^ n"
  by (metis take_bit_nat_less_exp unsigned_take_bit_eq)

lemma unat_u32_less: "unat w < 4294967296" for w :: u32
  using unsigned_less [of w, where 'a = nat] by simp

lemma unat_u64_less: "unat w < 18446744073709551616" for w :: u64
  using unsigned_less [of w, where 'a = nat] by simp

lemma bit_times_two [bits]: "bit (w * 2) k \<longleftrightarrow> k < 32 \<and> 0 < k \<and> bit w (k - 1)" for w :: u32
  by (auto simp: mult.commute [of w] bit_double_iff dest: bit_imp_le_length)

text \<open>Alignment to 4, tested on the low bits.\<close>

lemma and_3_mod: "unat (a AND 3) = unat a mod 4" for a :: "'a::len word"
proof -
  have "(3 :: 'a word) = mask 2" by (simp add: mask_eq_exp_minus_1)
  then have "a AND 3 = take_bit 2 a" by (simp add: take_bit_eq_mask)
  then show ?thesis by (simp only: unsigned_take_bit_eq) (simp add: take_bit_eq_mod)
qed

lemma and_3_zero: "a AND 3 = 0 \<longleftrightarrow> unat a mod 4 = 0" for a :: "'a::len word"
  using and_3_mod [of a] by (metis unat_0 unat_0_iff)

lemma aligned_diff: "a AND 3 = 0 \<Longrightarrow> b AND 3 = 0 \<Longrightarrow> (a - b) AND 3 = 0" for a b :: u64
proof -
  assume "a AND 3 = 0" "b AND 3 = 0"
  then have ab: "unat a mod 4 = 0" "unat b mod 4 = 0" by (simp_all only: and_3_zero)
  have "unat a = (unat (a - b) + unat b) mod 18446744073709551616"
    using unat_word_ariths(1) [of "a - b" b] by simp
  then have "unat a mod 4 = (unat (a - b) + unat b) mod 4" by (simp add: mod_mod_cancel)
  with ab have "unat (a - b) mod 4 = 0" by presburger
  then show ?thesis by (simp only: and_3_zero)
qed

lemma all_less_Suc_split: "(\<forall>k < Suc n. P k) \<longleftrightarrow> P 0 \<and> (\<forall>k < n. P (Suc k))"
  by (auto simp: less_Suc_eq_0_disj)

section \<open>Bit fields\<close>

text \<open>
  A member of width \<open>n\<close> at offset \<open>lo\<close> of a packed structure that overlays a
  32-bit word: reading it zero-extends, writing it truncates the value to \<open>n\<close> bits.
\<close>

definition bf_get :: "nat \<Rightarrow> nat \<Rightarrow> u32 \<Rightarrow> u32" where
  "bf_get lo n w = take_bit n (drop_bit lo w)"

definition bf_set :: "nat \<Rightarrow> nat \<Rightarrow> u32 \<Rightarrow> u32 \<Rightarrow> u32" where
  "bf_set lo n v w = (w AND NOT (push_bit lo (mask n))) OR push_bit lo (take_bit n v)"

lemma bit_bf_get [bits, simp]: "bit (bf_get lo n w) k \<longleftrightarrow> k < n \<and> bit w (lo + k)"
  by (auto simp: bf_get_def bit_simps)

lemma bit_bf_set [bits, simp]:
  "bit (bf_set lo n v w) k \<longleftrightarrow>
     (if lo \<le> k \<and> k < lo + n then k < 32 \<and> bit v (k - lo) else bit w k)"
  by (cases "k < 32") (auto simp: bf_set_def bit_simps dest: bit_imp_le_length)

lemma bf_get_set_same: "lo + n \<le> 32 \<Longrightarrow> bf_get lo n (bf_set lo n v w) = take_bit n v"
  by (rule bit_word_eqI) (auto simp: bit_simps)

lemma bf_get_set_other:
  "lo + n \<le> lo' \<or> lo' + n' \<le> lo \<Longrightarrow> bf_get lo n (bf_set lo' n' v w) = bf_get lo n w"
  by (rule bit_word_eqI) auto

lemma bf_get_le_mask: "bf_get lo n w AND mask n = bf_get lo n w"
  by (simp add: bf_get_def flip: take_bit_eq_mask)

lemma unat_bf_get: "unat (bf_get lo n w) = unat w div 2 ^ lo mod 2 ^ n"
  unfolding bf_get_def unsigned_take_bit_eq unat_drop_bit_eq
  by (simp add: take_bit_eq_mod drop_bit_eq_div)

lemma unat_bf_get_less: "unat (bf_get lo n w) < 2 ^ n"
  by (simp add: unat_bf_get)

text \<open>A member of an overlay as a value: its offset and its width.\<close>

datatype bitfield = BF nat nat

fun fget :: "bitfield \<Rightarrow> u32 \<Rightarrow> u32" where
  "fget (BF lo n) w = bf_get lo n w"

fun fput :: "bitfield \<Rightarrow> u32 \<Rightarrow> u32 \<Rightarrow> u32" where
  "fput (BF lo n) v w = bf_set lo n v w"

lemma bit_neg_bf_get [bits, simp]:
  "bit (- bf_get lo (Suc 0) w) k \<longleftrightarrow> k < 32 \<and> bit w lo"
proof -
  have "bf_get lo (Suc 0) w = of_bool (bit w lo)"
    by (rule bit_word_eqI) (auto simp: bit_simps)
  then show ?thesis by (simp add: bit_simps)
qed

section \<open>Little-endian bytes of a word\<close>

definition le32 :: "u32 \<Rightarrow> u8 list" where
  "le32 w = [ucast w, ucast (drop_bit 8 w), ucast (drop_bit 16 w), ucast (drop_bit 24 w)]"

definition le16 :: "u16 \<Rightarrow> u8 list" where
  "le16 w = [ucast w, ucast (drop_bit 8 w)]"

definition of_le32 :: "u8 \<Rightarrow> u8 \<Rightarrow> u8 \<Rightarrow> u8 \<Rightarrow> u32" where
  "of_le32 a b c d =
     ucast a OR push_bit 8 (ucast b) OR push_bit 16 (ucast c) OR push_bit 24 (ucast d)"

lemma length_le32 [simp]: "length (le32 w) = 4"
  by (simp add: le32_def)

lemma length_le16 [simp]: "length (le16 w) = 2"
  by (simp add: le16_def)

lemma of_le32_le32 [simp]:
  "of_le32 (ucast w) (ucast (drop_bit 8 w)) (ucast (drop_bit 16 w)) (ucast (drop_bit 24 w)) = w"
proof (rule bit_word_eqI)
  fix k assume "k < LENGTH(32)"
  then consider "k < 8" | "8 \<le> k" "k < 16" | "16 \<le> k" "k < 24" | "24 \<le> k" "k < 32"
    by fastforce
  then show "bit (of_le32 (ucast w) (ucast (drop_bit 8 w)) (ucast (drop_bit 16 w))
      (ucast (drop_bit 24 w))) k = bit w k"
    by cases (auto simp: of_le32_def bit_simps)
qed

section \<open>Sequences of words as bytes\<close>

definition le32s :: "u32 list \<Rightarrow> u8 list" where
  "le32s ws = concat (map le32 ws)"

lemma le32s_simps [simp]:
  "le32s [] = []" "le32s (w # ws) = le32 w @ le32s ws" "le32s (ws @ vs) = le32s ws @ le32s vs"
  by (simp_all add: le32s_def)

lemma length_le32s [simp]: "length (le32s ws) = 4 * length ws"
  by (induction ws) simp_all

lemma take_drop_le32s:
  "take (4 * i) (le32s ws) = le32s (take i ws) \<and> drop (4 * i) (le32s ws) = le32s (drop i ws)"
proof (cases "i \<le> length ws")
  case True
  have "le32s ws = le32s (take i ws) @ le32s (drop i ws)"
    by (metis append_take_drop_id le32s_simps(3))
  with True show ?thesis by simp
qed simp

lemma take_le32s: "take (4 * i) (le32s ws) = le32s (take i ws)"
  and drop_le32s: "drop (4 * i) (le32s ws) = le32s (drop i ws)"
  using take_drop_le32s by blast+

lemma of_le32_nth: "of_le32 (le32 w ! 0) (le32 w ! 1) (le32 w ! 2) (le32 w ! 3) = w"
  by (simp add: le32_def)

lemma le32_inj: "le32 v = le32 w \<Longrightarrow> v = w"
  by (metis of_le32_nth)

lemma le32s_inj: "le32s vs = le32s ws \<Longrightarrow> vs = ws"
proof (induction vs arbitrary: ws)
  case Nil
  then show ?case by (cases ws) (simp_all add: le32_def)
next
  case (Cons v vs)
  then obtain w ws' where ws: "ws = w # ws'" by (cases ws) (simp_all add: le32_def)
  with Cons.prems have "le32 v = le32 w" "le32s vs = le32s ws'" by simp_all
  with Cons.IH ws show ?case by (simp add: le32_inj)
qed

lemma le32_of_le32 [simp]: "le32 (of_le32 a b c d) = [a, b, c, d]"
  unfolding le32_def of_le32_def list.inject
  by (intro conjI refl; rule bit_word_eqI) (auto simp: bit_simps dest: bit_imp_le_length)

end
