(* ===== verification/Insn.thy ===== *)
theory Insn
  imports Prelude
begin

text \<open>
  rv/insn.h: the enumerations of the RV32I encoding and the packed views of an instruction
  word (\<open>union insn\<close>).  An enumeration is a datatype with the function that gives each
  enumerator its value; a \<open>switch\<close> on a bit field is a lookup of the enumerator with that
  value, \<open>None\<close> where no enumerator has it (then C runs none of the cases).  A member of a
  view is its offset and width; members are allocated from bit 0 upwards.
\<close>

section \<open>Registers\<close>

datatype rv32_abi_reg =
    rv_zero | rv_ra | rv_sp | rv_gp | rv_tp | rv_t0 | rv_t1 | rv_t2
  | rv_s0 | rv_s1 | rv_a0 | rv_a1 | rv_a2 | rv_a3 | rv_a4 | rv_a5
  | rv_a6 | rv_a7 | rv_s2 | rv_s3 | rv_s4 | rv_s5 | rv_s6 | rv_s7
  | rv_s8 | rv_s9 | rv_s10 | rv_s11 | rv_t3 | rv_t4 | rv_t5 | rv_t6

text \<open>\<open>rv_fp\<close> is a second name of the value 8.\<close>

abbreviation rv_fp :: rv32_abi_reg where "rv_fp \<equiv> rv_s0"

fun reg_num :: "rv32_abi_reg \<Rightarrow> u8" where
  "reg_num rv_zero = 0"
| "reg_num rv_ra = 1"
| "reg_num rv_sp = 2"
| "reg_num rv_gp = 3"
| "reg_num rv_tp = 4"
| "reg_num rv_t0 = 5"
| "reg_num rv_t1 = 6"
| "reg_num rv_t2 = 7"
| "reg_num rv_s0 = 8"
| "reg_num rv_s1 = 9"
| "reg_num rv_a0 = 10"
| "reg_num rv_a1 = 11"
| "reg_num rv_a2 = 12"
| "reg_num rv_a3 = 13"
| "reg_num rv_a4 = 14"
| "reg_num rv_a5 = 15"
| "reg_num rv_a6 = 16"
| "reg_num rv_a7 = 17"
| "reg_num rv_s2 = 18"
| "reg_num rv_s3 = 19"
| "reg_num rv_s4 = 20"
| "reg_num rv_s5 = 21"
| "reg_num rv_s6 = 22"
| "reg_num rv_s7 = 23"
| "reg_num rv_s8 = 24"
| "reg_num rv_s9 = 25"
| "reg_num rv_s10 = 26"
| "reg_num rv_s11 = 27"
| "reg_num rv_t3 = 28"
| "reg_num rv_t4 = 29"
| "reg_num rv_t5 = 30"
| "reg_num rv_t6 = 31"

lemma reg_num_inj: "reg_num r = reg_num q \<longleftrightarrow> r = q"
  by (cases r; cases q; simp)

text \<open>Registers are ordered by their number.\<close>

instantiation rv32_abi_reg :: linorder
begin

definition less_eq_rv32_abi_reg :: "rv32_abi_reg \<Rightarrow> rv32_abi_reg \<Rightarrow> bool" where
  "less_eq_rv32_abi_reg r q \<longleftrightarrow> reg_num r \<le> reg_num q"

definition less_rv32_abi_reg :: "rv32_abi_reg \<Rightarrow> rv32_abi_reg \<Rightarrow> bool" where
  "less_rv32_abi_reg r q \<longleftrightarrow> reg_num r < reg_num q"

instance
  by standard
    (auto simp: less_eq_rv32_abi_reg_def less_rv32_abi_reg_def simp flip: reg_num_inj)

end

section \<open>Opcodes\<close>

datatype insn_op =
    op_load | op_load_fp | op_custom_0 | op_misc_mem | op_imm | op_auipc | op_imm_32
  | op_store | op_store_fp | op_custom_1 | op_amo | op_op | op_lui | op_op_32
  | op_madd | op_msub | op_nmsub | op_nmadd | op_fp | op_custom2_rv128
  | op_branch | op_jalr | op_jal | op_system | op_custom3_rv128

fun op_code :: "insn_op \<Rightarrow> u32" where
  "op_code op_load = 0b0000011"
| "op_code op_load_fp = 0b0000111"
| "op_code op_custom_0 = 0b0001011"
| "op_code op_misc_mem = 0b0001111"
| "op_code op_imm = 0b0010011"
| "op_code op_auipc = 0b0010111"
| "op_code op_imm_32 = 0b0011011"
| "op_code op_store = 0b0100011"
| "op_code op_store_fp = 0b0100111"
| "op_code op_custom_1 = 0b0101011"
| "op_code op_amo = 0b0101111"
| "op_code op_op = 0b0110011"
| "op_code op_lui = 0b0110111"
| "op_code op_op_32 = 0b0111011"
| "op_code op_madd = 0b1000011"
| "op_code op_msub = 0b1000111"
| "op_code op_nmsub = 0b1001011"
| "op_code op_nmadd = 0b1001111"
| "op_code op_fp = 0b1010011"
| "op_code op_custom2_rv128 = 0b1011011"
| "op_code op_branch = 0b1100011"
| "op_code op_jalr = 0b1100111"
| "op_code op_jal = 0b1101111"
| "op_code op_system = 0b1110011"
| "op_code op_custom3_rv128 = 0b1111011"

definition all_insn_ops :: "insn_op list" where
  "all_insn_ops =
     [op_load, op_load_fp, op_custom_0, op_misc_mem, op_imm, op_auipc, op_imm_32,
      op_store, op_store_fp, op_custom_1, op_amo, op_op, op_lui, op_op_32,
      op_madd, op_msub, op_nmsub, op_nmadd, op_fp, op_custom2_rv128,
      op_branch, op_jalr, op_jal, op_system, op_custom3_rv128]"

text \<open>The enumerator a \<open>switch\<close> selects: the one with the given value, if there is one.\<close>

definition enum_of :: "('e \<Rightarrow> u32) \<Rightarrow> 'e list \<Rightarrow> u32 \<Rightarrow> 'e option" where
  "enum_of code es v = find (\<lambda>e. code e = v) es"

lemma enum_of_Some:
  "enum_of code es v = Some e \<Longrightarrow> code e = v \<and> e \<in> set es"
  by (auto simp: enum_of_def find_Some_iff)

lemma enum_of_None: "enum_of code es v = None \<longleftrightarrow> v \<notin> code ` set es"
  by (auto simp: enum_of_def find_None_iff)

lemma enum_of_code:
  assumes "inj_on code (set es)" "e \<in> set es"
  shows "enum_of code es (code e) = Some e"
proof (cases "enum_of code es (code e)")
  case None
  with assms(2) show ?thesis by (simp add: enum_of_None)
next
  case (Some f)
  then show ?thesis using enum_of_Some [OF Some] assms by (auto dest: inj_onD)
qed

definition op_of :: "u32 \<Rightarrow> insn_op option" where
  "op_of v = enum_of op_code all_insn_ops v"

section \<open>Function fields\<close>

datatype insn_store_func = store_func_sb | store_func_sh | store_func_sw

fun store_func_code :: "insn_store_func \<Rightarrow> u32" where
  "store_func_code store_func_sb = 0b000"
| "store_func_code store_func_sh = 0b001"
| "store_func_code store_func_sw = 0b010"

datatype insn_branch_func =
    branch_func_beq | branch_func_bne | branch_func_blt | branch_func_bge
  | branch_func_bltu | branch_func_bgeu

fun branch_func_code :: "insn_branch_func \<Rightarrow> u32" where
  "branch_func_code branch_func_beq = 0b000"
| "branch_func_code branch_func_bne = 0b001"
| "branch_func_code branch_func_blt = 0b100"
| "branch_func_code branch_func_bge = 0b101"
| "branch_func_code branch_func_bltu = 0b110"
| "branch_func_code branch_func_bgeu = 0b111"

datatype insn_load_func =
  load_func_lb | load_func_lh | load_func_lw | load_func_lbu | load_func_lhu

fun load_func_code :: "insn_load_func \<Rightarrow> u32" where
  "load_func_code load_func_lb = 0b000"
| "load_func_code load_func_lh = 0b001"
| "load_func_code load_func_lw = 0b010"
| "load_func_code load_func_lbu = 0b100"
| "load_func_code load_func_lhu = 0b101"

text \<open>\<open>imm_func_srli\<close> and \<open>imm_func_srai\<close> share a value; a \<open>switch\<close> names the first.\<close>

datatype insn_imm_func =
    imm_func_addi | imm_func_slti | imm_func_sltiu | imm_func_xori | imm_func_ori
  | imm_func_andi | imm_func_slli | imm_func_srli | imm_func_srai

fun imm_func_code :: "insn_imm_func \<Rightarrow> u32" where
  "imm_func_code imm_func_addi = 0b000"
| "imm_func_code imm_func_slti = 0b010"
| "imm_func_code imm_func_sltiu = 0b011"
| "imm_func_code imm_func_xori = 0b100"
| "imm_func_code imm_func_ori = 0b110"
| "imm_func_code imm_func_andi = 0b111"
| "imm_func_code imm_func_slli = 0b001"
| "imm_func_code imm_func_srli = 0b101"
| "imm_func_code imm_func_srai = 0b101"

datatype shift_func = shift_func_srli | shift_func_srai

fun shift_func_code :: "shift_func \<Rightarrow> u32" where
  "shift_func_code shift_func_srli = 0"
| "shift_func_code shift_func_srai = push_bit 5 1"

datatype insn_op_funct3 =
    op_funct3_add | op_funct3_sll | op_funct3_slt | op_funct3_sltu | op_funct3_xor
  | op_funct3_srl | op_funct3_or | op_funct3_and

fun op_funct3_code :: "insn_op_funct3 \<Rightarrow> u32" where
  "op_funct3_code op_funct3_add = 0"
| "op_funct3_code op_funct3_sll = 1"
| "op_funct3_code op_funct3_slt = 2"
| "op_funct3_code op_funct3_sltu = 3"
| "op_funct3_code op_funct3_xor = 4"
| "op_funct3_code op_funct3_srl = 5"
| "op_funct3_code op_funct3_or = 6"
| "op_funct3_code op_funct3_and = 7"

datatype insn_op_funct7 =
    op_funct7_add | op_funct7_sub | op_funct7_sll | op_funct7_slt | op_funct7_sltu
  | op_funct7_xor | op_funct7_srl | op_funct7_sra | op_funct7_or | op_funct7_and

fun op_funct7_code :: "insn_op_funct7 \<Rightarrow> u32" where
  "op_funct7_code op_funct7_add = 0"
| "op_funct7_code op_funct7_sub = push_bit 5 1"
| "op_funct7_code op_funct7_sll = 0"
| "op_funct7_code op_funct7_slt = 0"
| "op_funct7_code op_funct7_sltu = 0"
| "op_funct7_code op_funct7_xor = 0"
| "op_funct7_code op_funct7_srl = 0"
| "op_funct7_code op_funct7_sra = push_bit 5 1"
| "op_funct7_code op_funct7_or = 0"
| "op_funct7_code op_funct7_and = 0"

text \<open>
  The enumerations below are declared by the header and used by no code.  The enumerators of
  \<open>insn_csr_funct3\<close> count from 0.
\<close>

datatype insn_csr_funct3 = csrrw | csrrs | csrrc | csrrwi | csrrsi | csrrci

fun csr_funct3_code :: "insn_csr_funct3 \<Rightarrow> u32" where
  "csr_funct3_code csrrw = 0"
| "csr_funct3_code csrrs = 1"
| "csr_funct3_code csrrc = 2"
| "csr_funct3_code csrrwi = 3"
| "csr_funct3_code csrrsi = 4"
| "csr_funct3_code csrrci = 5"

datatype csr_special_source =
  rdcycle | rdcycle_h | rdtime | rdtime_h | rdinstret | rdinstret_h

fun csr_special_code :: "csr_special_source \<Rightarrow> u32" where
  "csr_special_code rdcycle = 0"
| "csr_special_code rdcycle_h = 1"
| "csr_special_code rdtime = 2"
| "csr_special_code rdtime_h = 3"
| "csr_special_code rdinstret = 4"
| "csr_special_code rdinstret_h = 5"

datatype insn_fence_funct3 = fence_funct3 | fence_funct3_i

fun fence_funct3_code :: "insn_fence_funct3 \<Rightarrow> u32" where
  "fence_funct3_code fence_funct3 = 0"
| "fence_funct3_code fence_funct3_i = 1"

datatype fence_flags = fence_i | fence_o | fence_r | fence_w

fun fence_flag_code :: "fence_flags \<Rightarrow> u32" where
  "fence_flag_code fence_i = push_bit 3 1"
| "fence_flag_code fence_o = push_bit 2 1"
| "fence_flag_code fence_r = push_bit 1 1"
| "fence_flag_code fence_w = push_bit 0 1"

datatype ecall_imm = ecall_ecall | ecall_ebreak

fun ecall_imm_code :: "ecall_imm \<Rightarrow> u32" where
  "ecall_imm_code ecall_ecall = 0"
| "ecall_imm_code ecall_ebreak = push_bit 5 1"

definition store_func_of :: "u32 \<Rightarrow> insn_store_func option" where
  "store_func_of = enum_of store_func_code [store_func_sb, store_func_sh, store_func_sw]"

definition branch_func_of :: "u32 \<Rightarrow> insn_branch_func option" where
  "branch_func_of = enum_of branch_func_code
     [branch_func_beq, branch_func_bne, branch_func_blt, branch_func_bge,
      branch_func_bltu, branch_func_bgeu]"

definition load_func_of :: "u32 \<Rightarrow> insn_load_func option" where
  "load_func_of = enum_of load_func_code
     [load_func_lb, load_func_lh, load_func_lw, load_func_lbu, load_func_lhu]"

definition imm_func_of :: "u32 \<Rightarrow> insn_imm_func option" where
  "imm_func_of = enum_of imm_func_code
     [imm_func_addi, imm_func_slti, imm_func_sltiu, imm_func_xori, imm_func_ori,
      imm_func_andi, imm_func_slli, imm_func_srli]"

definition op_funct3_of :: "u32 \<Rightarrow> insn_op_funct3 option" where
  "op_funct3_of = enum_of op_funct3_code
     [op_funct3_add, op_funct3_sll, op_funct3_slt, op_funct3_sltu, op_funct3_xor,
      op_funct3_srl, op_funct3_or, op_funct3_and]"

definition ecall_imm_of :: "u32 \<Rightarrow> ecall_imm option" where
  "ecall_imm_of = enum_of ecall_imm_code [ecall_ecall, ecall_ebreak]"

section \<open>The packed views of an instruction word\<close>

text \<open>\<open>unknown\<close>: only the opcode is known.\<close>

definition opcode :: bitfield where [layout]: "opcode = BF 0 7"
definition unk_rest :: bitfield where [layout]: "unk_rest = BF 7 25"

text \<open>The fields that views R, I, S, B, U and J place alike.\<close>

definition rd :: bitfield where [layout]: "rd = BF 7 5"
definition funct3 :: bitfield where [layout]: "funct3 = BF 12 3"
definition rs1 :: bitfield where [layout]: "rs1 = BF 15 5"
definition rs2 :: bitfield where [layout]: "rs2 = BF 20 5"

text \<open>Views R, I and S.\<close>

definition r_funct7 :: bitfield where [layout]: "r_funct7 = BF 25 7"
definition i_imm_11_0 :: bitfield where [layout]: "i_imm_11_0 = BF 20 12"
definition s_imm_4_0 :: bitfield where [layout]: "s_imm_4_0 = BF 7 5"
definition s_imm_11_5 :: bitfield where [layout]: "s_imm_11_5 = BF 25 7"

text \<open>View B.\<close>

definition b_imm_11 :: bitfield where [layout]: "b_imm_11 = BF 7 1"
definition b_imm_4_1 :: bitfield where [layout]: "b_imm_4_1 = BF 8 4"
definition b_imm_10_5 :: bitfield where [layout]: "b_imm_10_5 = BF 25 6"
definition b_imm_12 :: bitfield where [layout]: "b_imm_12 = BF 31 1"

text \<open>Views U and J.\<close>

definition u_imm_31_12 :: bitfield where [layout]: "u_imm_31_12 = BF 12 20"
definition j_imm_19_12 :: bitfield where [layout]: "j_imm_19_12 = BF 12 8"
definition j_imm_11 :: bitfield where [layout]: "j_imm_11 = BF 20 1"
definition j_imm_10_1 :: bitfield where [layout]: "j_imm_10_1 = BF 21 10"
definition j_imm_20 :: bitfield where [layout]: "j_imm_20 = BF 31 1"

text \<open>
  View \<open>fence\<close>.  Its \<open>rs1\<close> is 3 bits wide where the format has 5, so the fields
  above it sit two bits too low and the view covers 30 bits.
\<close>

definition fence_rs1 :: bitfield where [layout]: "fence_rs1 = BF 15 3"
definition fence_successor :: bitfield where [layout]: "fence_successor = BF 18 4"
definition fence_predecessor :: bitfield where [layout]: "fence_predecessor = BF 22 4"
definition fence_always_zero :: bitfield where [layout]: "fence_always_zero = BF 26 4"

section \<open>Enumerators are found by their value\<close>

lemma op_code_inj: "op_code a = op_code b \<longleftrightarrow> a = b"
  by (cases a; cases b; simp)

lemma in_all_insn_ops: "a \<in> set all_insn_ops"
  by (cases a; simp add: all_insn_ops_def)

lemma op_code_bound: "op_code a AND mask 7 = op_code a"
  by (cases a; simp add: mask_eq_exp_minus_1)

lemma op_of_code [simp]: "op_of (op_code a) = Some a"
  unfolding op_of_def
  by (rule enum_of_code) (auto simp: inj_on_def op_code_inj in_all_insn_ops)

lemma op_of_Some_iff: "op_of v = Some a \<longleftrightarrow> v = op_code a"
  using enum_of_Some [of op_code all_insn_ops v a] op_of_code [of a]
  by (auto simp: op_of_def)

text \<open>
  The opcode enumeration and its lookup are inverse: every opcode is found
  from its value, nothing else is, and each value fits the 7-bit field that holds it.
\<close>

theorem opcode_lookup:
  "op_of (op_code a) = Some a \<and> (op_of v = Some a \<longleftrightarrow> v = op_code a)
   \<and> op_of (fget opcode (fput opcode (op_code a) w)) = Some a"
proof -
  have "fget opcode (fput opcode (op_code a) w) = op_code a"
    using op_code_bound [of a]
    by (simp add: layout bf_get_set_same take_bit_eq_mask)
  then show ?thesis by (simp add: op_of_Some_iff)
qed

end
