(* ===== verification/Bit_Math.thy ===== *)
theory Bit_Math
  imports Prelude
begin

text \<open>
  common/bit_math.h: rounding up to an alignment and to a power of two.  The builtin
  \<open>__builtin_clz\<close> has, by its documentation, an undefined result on 0; the model takes
  that result as the parameter \<open>z\<close>, so that a fact proved for every \<open>z\<close> holds whatever
  the compiler makes of it.
\<close>

section \<open>Counting leading zeros\<close>

text \<open>The position above the highest set bit among the lowest \<open>k\<close> bits.\<close>

primrec bit_len :: "nat \<Rightarrow> u32 \<Rightarrow> nat" where
  "bit_len 0 w = 0"
| "bit_len (Suc k) w = (if bit w k then Suc k else bit_len k w)"

definition builtin_clz :: "u32 \<Rightarrow> u32 \<Rightarrow> u32" where
  "builtin_clz z w = (if w = 0 then z else of_nat (32 - bit_len 32 w))"

lemma bit_len_le: "bit_len k w \<le> k"
  by (induction k) auto

lemma bit_len_above: "bit_len k w \<le> j \<Longrightarrow> j < k \<Longrightarrow> \<not> bit w j"
  by (induction k) (auto split: if_splits simp: less_Suc_eq)

lemma bit_len_top: "bit_len k w = Suc j \<Longrightarrow> bit w j"
  by (induction k) (auto split: if_splits)

lemma bit_len_zero_iff: "bit_len 32 w = 0 \<longleftrightarrow> w = 0"
proof
  assume "bit_len 32 w = 0"
  then have "\<forall>n < 32. bit w n = bit (0 :: u32) n" by (simp add: bit_len_above [of 32])
  then show "w = 0" by (rule u32_eqI)
next
  assume "w = 0"
  then show "bit_len 32 w = 0" by (metis bit_0_eq bit_len_top bot_apply bot_bool_def not0_implies_Suc)
qed

lemma bit_len_less: "unat w < 2 ^ bit_len 32 w"
proof -
  have "take_bit (bit_len 32 w) w = w"
  proof (rule bit_word_eqI)
    fix n assume "n < LENGTH(32)"
    then show "bit (take_bit (bit_len 32 w) w) n = bit w n"
      by (cases "n < bit_len 32 w") (auto simp: bit_simps bit_len_above [of 32])
  qed
  then show ?thesis
    by (metis take_bit_nat_less_exp unsigned_take_bit_eq)
qed

lemma bit_len_ge: "w \<noteq> 0 \<Longrightarrow> 2 ^ (bit_len 32 w - 1) \<le> unat w"
proof -
  assume "w \<noteq> 0"
  then obtain j where j: "bit_len 32 w = Suc j"
    by (metis bit_len_zero_iff not0_implies_Suc)
  then have "bit (unat w) j" by (simp add: bit_len_top bit_unsigned_iff)
  then have "odd (unat w div 2 ^ j)" by (simp add: bit_iff_odd)
  then have "unat w div 2 ^ j \<noteq> 0" by (metis even_zero)
  then show ?thesis by (simp add: j div_eq_0_iff)
qed

lemma bit_len_unique:
  assumes "2 ^ k \<le> unat w" "unat w < 2 ^ Suc k" shows "bit_len 32 w = Suc k"
proof -
  from assms(1) have nz: "w \<noteq> 0" by auto
  from assms(1) bit_len_less[of w] have "(2 :: nat) ^ k < 2 ^ bit_len 32 w" by linarith
  then have "k < bit_len 32 w" by simp
  moreover from assms(2) bit_len_ge[OF nz] have "(2 :: nat) ^ (bit_len 32 w - 1) < 2 ^ Suc k"
    by linarith
  then have "bit_len 32 w - 1 < Suc k" by (simp only: power_strict_increasing_iff)
  ultimately show ?thesis by linarith
qed

section \<open>Powers of two\<close>

text \<open>Shifting the \<open>int\<close> 1 into the sign bit gives \<open>2 ^ 31\<close>, as GCC and Clang define it.\<close>

definition next_po2 :: "u32 \<Rightarrow> u32 \<Rightarrow> u32" where
  "next_po2 z val = push_bit (unat ((32 - builtin_clz z (val - 1)) AND 31)) 1"

definition max_po2 :: "u32 \<Rightarrow> u32 \<Rightarrow> u32 \<Rightarrow> u32" where
  "max_po2 z a b = (let a = a OR b in push_bit (unat (31 - builtin_clz z a)) 1)"

section \<open>Alignment\<close>

definition align_upwards :: "u32 \<Rightarrow> u32 \<Rightarrow> u32" where
  "align_upwards val align = (val + (align - 1)) AND NOT (align - 1)"

definition align_upwards64 :: "u64 \<Rightarrow> u64 \<Rightarrow> u64" where
  "align_upwards64 val align = (val + (align - 1)) AND NOT (align - 1)"

lemma unat_and_not_mask:
  "unat (w AND NOT (mask k)) = unat w div 2 ^ k * 2 ^ k" for w :: "'a::len word"
proof -
  have "unat (w AND NOT (mask k)) = push_bit k (drop_bit k (unat w))"
    by (rule bit_eqI) (auto simp: bit_simps bit_unsigned_iff dest: bit_imp_le_length)
  then show ?thesis by (simp add: push_bit_eq_mult drop_bit_eq_div)
qed

text \<open>Adding \<open>2 ^ k - 1\<close> and clearing the low bits, for either width.\<close>

lemma align_general:
  fixes w :: "'a::len word"
  assumes "k < LENGTH('a)" "unat w + 2 ^ k \<le> 2 ^ LENGTH('a)"
  shows "unat ((w + (2 ^ k - 1)) AND NOT (2 ^ k - 1)) = (unat w + (2 ^ k - 1)) div 2 ^ k * 2 ^ k"
proof -
  have m: "unat (mask k :: 'a word) = 2 ^ k - 1"
    using assms(1) by (simp only: unat_mask) (simp add: mask_eq_exp_minus_1)
  then have "unat w + unat (mask k :: 'a word) < 2 ^ LENGTH('a)"
    using assms(2) zero_less_power [of "2 :: nat" k] unfolding m by linarith
  then have "unat (w + mask k) = unat w + (2 ^ k - 1)"
    by (metis m unat_add_lem)
  then show ?thesis
    by (simp add: unat_and_not_mask flip: mask_eq_exp_minus_1)
qed

text \<open>
  The least multiple of \<open>m\<close> that is not below \<open>v\<close>, the abstract meaning of both
  alignment functions.
\<close>

definition is_align_up :: "nat \<Rightarrow> nat \<Rightarrow> nat \<Rightarrow> bool" where
  "is_align_up m v r \<longleftrightarrow> m dvd r \<and> v \<le> r \<and> (\<forall>r'. m dvd r' \<and> v \<le> r' \<longrightarrow> r \<le> r')"

lemma is_align_up_div: "0 < m \<Longrightarrow> is_align_up m v ((v + (m - 1)) div m * m)"
proof -
  assume m: "0 < m"
  have lt: "v \<le> (v + (m - 1)) div m * m" and up: "(v + (m - 1)) div m * m < v + m"
    using m div_mult_mod_eq[of "v + (m - 1)" m] mod_less_divisor[of m "v + (m - 1)"] by linarith+
  have "(v + (m - 1)) div m * m \<le> r'" if "m dvd r'" "v \<le> r'" for r'
  proof (rule ccontr)
    assume "\<not> (v + (m - 1)) div m * m \<le> r'"
    with that obtain c where "r' = c * m" "c < (v + (m - 1)) div m"
      by (metis dvd_div_mult_self mult_le_mono1 not_le_imp_less)
    then have "(c + 1) * m \<le> (v + (m - 1)) div m * m" by (intro mult_le_mono1) simp
    with up that \<open>r' = c * m\<close> show False by simp
  qed
  with lt show ?thesis by (simp add: is_align_up_def)
qed

lemma align_upwards_eq:
  "k < 32 \<Longrightarrow> unat val + 2 ^ k \<le> 2 ^ 32 \<Longrightarrow>
   unat (align_upwards val (2 ^ k)) = (unat val + (2 ^ k - 1)) div 2 ^ k * 2 ^ k"
  using align_general [of k val] by (simp add: align_upwards_def)

lemma align_upwards64_eq:
  "k < 64 \<Longrightarrow> unat val + 2 ^ k \<le> 2 ^ 64 \<Longrightarrow>
   unat (align_upwards64 val (2 ^ k)) = (unat val + (2 ^ k - 1)) div 2 ^ k * 2 ^ k"
  using align_general [of k val] by (simp add: align_upwards64_def)

text \<open>
  Property C34. \<open>align_upwards\<close> with a power of two is the least multiple of the alignment
  that is not below the value, as its comment says, whenever that multiple fits in 32 bits
  (so that the addition does not wrap).
\<close>

theorem align_upwards_least:
  assumes "k < 32" "unat val + 2 ^ k \<le> 2 ^ 32"
  shows "is_align_up (2 ^ k) (unat val) (unat (align_upwards val (2 ^ k)))"
  using is_align_up_div [of "2 ^ k" "unat val"] align_upwards_eq assms by simp

theorem align_upwards_least_witness:
  "is_align_up (2 ^ 12) (unat (3072 :: u32)) (unat (align_upwards 3072 (2 ^ 12)))"
  by (rule align_upwards_least) simp_all

text \<open>
  \<open>align_upwards64\<close> has the same meaning on 64 bits.
\<close>

theorem align_upwards64_least:
  assumes "k < 64" "unat val + 2 ^ k \<le> 2 ^ 64"
  shows "is_align_up (2 ^ k) (unat val) (unat (align_upwards64 val (2 ^ k)))"
  using is_align_up_div [of "2 ^ k" "unat val"] align_upwards64_eq assms by simp

theorem align_upwards64_least_witness:
  "is_align_up (2 ^ 12) (unat (3072 :: u64)) (unat (align_upwards64 3072 (2 ^ 12)))"
  by (rule align_upwards64_least) simp_all

section \<open>The powers of two\<close>

lemma builtin_clz_nz: "w \<noteq> 0 \<Longrightarrow> unat (builtin_clz z w) = 32 - bit_len 32 w"
  by (simp add: builtin_clz_def unat_of_nat)

lemma and_31: "unat (w AND 31) = unat w mod 32" for w :: u32
proof -
  have "(31 :: u32) = mask 5" by (simp add: mask_eq_exp_minus_1)
  then have "w AND 31 = take_bit 5 w" by (simp add: take_bit_eq_mask)
  then show ?thesis by (simp only: unsigned_take_bit_eq) (simp add: take_bit_eq_mod)
qed

lemma sub_clz: "w \<noteq> 0 \<Longrightarrow> unat (32 - builtin_clz z w) = bit_len 32 w"
  by (simp add: unat_sub word_le_nat_alt builtin_clz_nz bit_len_le)

lemma unat_one_shift: "k < 32 \<Longrightarrow> unat (2 ^ k :: u32) = 2 ^ k"
  by (rule bit_eqI) (auto simp: bit_simps bit_unsigned_iff)

lemma next_po2_bounds:
  assumes "2 \<le> unat val" "unat val \<le> 2 ^ 31"
  shows "\<exists>k. unat (next_po2 z val) = 2 ^ Suc k \<and> unat val \<le> 2 ^ Suc k \<and> 2 ^ k < unat val"
proof -
  let ?w = "val - 1" and ?k = "bit_len 32 (val - 1)"
  have pred: "unat ?w = unat val - 1"
    using assms(1) by (simp add: unat_sub word_le_nat_alt)
  then have nz: "?w \<noteq> 0" using assms(1) by auto
  have lo: "2 ^ (?k - 1) \<le> unat ?w" and hi: "unat ?w < 2 ^ ?k"
    using bit_len_ge [OF nz] bit_len_less by auto
  have "(2 :: nat) ^ (?k - 1) < 2 ^ 31" using lo pred assms by linarith
  then have k: "?k < 32" by (simp only: power_strict_increasing_iff)
  have "0 < ?k" using nz bit_len_zero_iff by (metis gr0I)
  then have "?k = Suc (?k - 1)" by simp
  moreover have "unat (next_po2 z val) = 2 ^ ?k"
    using k by (simp add: next_po2_def and_31 sub_clz [OF nz] unat_one_shift)
  moreover have "unat val \<le> 2 ^ ?k" "2 ^ (?k - 1) < unat val" using lo hi pred assms by linarith+
  ultimately show ?thesis by metis
qed

lemma next_po2_big:
  assumes "2 ^ 31 < unat val" shows "next_po2 z val = 1"
proof -
  have p: "unat (val - 1) = unat val - 1" using assms by (simp add: unat_sub word_le_nat_alt)
  then have "bit_len 32 (val - 1) = 32"
    using assms unat_u32_less [of val] by (intro bit_len_unique [of 31, simplified]) auto
  moreover have "val - 1 \<noteq> 0" using p assms by auto
  ultimately show ?thesis by (simp add: next_po2_def and_31 sub_clz)
qed

lemma next_po2_1: "next_po2 z 1 = push_bit (unat (32 - z) mod 32) 1"
  by (simp add: next_po2_def and_31 builtin_clz_def)

text \<open>
  Property C35. For every value from 2 to \<open>2 ^ 31\<close> \<open>next_po2\<close> is the least power of two
  not below it.
\<close>

theorem next_po2_least:
  assumes "2 \<le> unat val" "unat val \<le> 2 ^ 31"
  shows "\<exists>k. unat (next_po2 z val) = 2 ^ k \<and> unat val \<le> 2 ^ k
    \<and> (\<forall>j. unat val \<le> 2 ^ j \<longrightarrow> (2 :: nat) ^ k \<le> 2 ^ j)"
proof -
  obtain k where k: "unat (next_po2 z val) = 2 ^ Suc k" "unat val \<le> 2 ^ Suc k" "2 ^ k < unat val"
    using next_po2_bounds [OF assms] by blast
  have "(2 :: nat) ^ Suc k \<le> 2 ^ j" if "unat val \<le> 2 ^ j" for j
  proof -
    have "(2 :: nat) ^ k < 2 ^ j" using k(3) that by linarith
    then have "k < j" by (simp only: power_strict_increasing_iff)
    then show ?thesis by (intro power_increasing) auto
  qed
  with k show ?thesis by blast
qed

theorem next_po2_least_witness:
  "\<exists>k. unat (next_po2 7 (5 :: u32)) = 2 ^ k \<and> unat (5 :: u32) \<le> 2 ^ k
    \<and> (\<forall>j. unat (5 :: u32) \<le> 2 ^ j \<longrightarrow> (2 :: nat) ^ k \<le> 2 ^ j)"
  by (rule next_po2_least) simp_all

text \<open>
  Property C36. Outside that range the comment on \<open>next_po2\<close> fails: above \<open>2 ^ 31\<close> the
  masked shift amount is 0 and the result is 1, and on 1 the result is whatever
  \<open>__builtin_clz(0)\<close> makes of it.
\<close>

theorem next_po2_outside:
  "(2 ^ 31 < unat val \<longrightarrow> next_po2 z val = 1)
   \<and> next_po2 z 0 = 1 \<and> next_po2 z 1 = push_bit (unat (32 - z) mod 32) 1"
proof -
  have "bit_len 32 (- 1) = 32"
    by (intro bit_len_unique [of 31, simplified]) (simp_all add: unsigned_minus_1_eq_mask mask_eq_exp_minus_1)
  then have "next_po2 z 0 = 1" by (simp add: next_po2_def and_31 sub_clz)
  then show ?thesis by (simp add: next_po2_big next_po2_1)
qed

theorem next_po2_outside_witness:
  "2 ^ 31 < unat (0x80000001 :: u32) \<and> next_po2 31 0x80000001 = 1"
  using next_po2_outside [of "0x80000001" 31] by simp

lemma bit_len_or: "bit_len k (a OR b) = max (bit_len k a) (bit_len k b)"
proof (induction k)
  case (Suc k)
  then show ?case
    using bit_len_le [of k a] bit_len_le [of k b] by (auto simp: bit_or_iff max_def)
qed simp

lemma max_po2_max:
  assumes "unat a = 2 ^ i" "unat b = 2 ^ j"
  shows "unat (max_po2 z a b) = 2 ^ max i j"
proof -
  have "(2 :: nat) ^ i < 2 ^ 32" "(2 :: nat) ^ j < 2 ^ 32"
    using assms unat_u32_less [of a] unat_u32_less [of b] by simp_all
  then have ij: "i < 32" "j < 32" by (simp_all only: power_strict_increasing_iff)
  have "bit_len 32 a = Suc i" "bit_len 32 b = Suc j"
    using assms by (simp_all add: bit_len_unique)
  then have l: "bit_len 32 (a OR b) = Suc (max i j)" by (simp add: bit_len_or)
  then have nz: "a OR b \<noteq> 0" by (metis bit_len_zero_iff nat.distinct(1))
  have c: "unat (builtin_clz z (a OR b)) = 31 - max i j"
    using builtin_clz_nz [OF nz] l by simp
  then have "unat (31 - builtin_clz z (a OR b)) = max i j"
    using ij by (simp add: unat_sub word_le_nat_alt)
  then show ?thesis
    using ij by (simp add: max_po2_def unat_one_shift)
qed

text \<open>
  \<open>max_po2\<close> of two powers of two is the larger of them.
\<close>

theorem max_po2_is_max:
  assumes "unat a = 2 ^ i" "unat b = 2 ^ j"
  shows "unat (max_po2 z a b) = max (unat a) (unat b)"
  using max_po2_max [OF assms] assms by (simp add: max_def)

theorem max_po2_is_max_witness: "unat (max_po2 0 16 (8 :: u32)) = max (unat (16 :: u32)) (unat (8 :: u32))"
  by (rule max_po2_is_max [of _ 4 _ 3]) simp_all

end
