(* ===== verification/Rv_Bits.thy ===== *)
theory Rv_Bits
  imports Insn Bit_Math
begin

text \<open>
  rv/bits.h: reading the immediates out of an instruction word, and the sign-extension
  helpers.  Each \<open>read_*_immediate\<close> copies the fields of one packed overlay into another;
  the model makes the same copies in the same order.  An \<open>i32\<close> is the 32-bit word with the
  same bits, read through \<open>sint\<close>; the \<open>bit_cast\<close> functions are therefore identities.
\<close>

definition bit_cast_i32 :: "u32 \<Rightarrow> i32" where
  "bit_cast_i32 v = v"

definition bit_cast_u32 :: "i32 \<Rightarrow> u32" where
  "bit_cast_u32 v = v"

definition sext32_imm32 :: "u32 \<Rightarrow> i32" where
  "sext32_imm32 x = bit_cast_i32 x"

text \<open>Negation of the least \<open>i32\<close> overflows, which C leaves undefined: \<open>None\<close>.\<close>

definition make_positive :: "i32 \<Rightarrow> i32 option" where
  "make_positive v =
     (if sint v < 0 then (if v = 0x80000000 then None else Some (- v)) else Some v)"

text \<open>
  \<open>sext32_generic\<close> shifts by \<open>fill_count - 1\<close>; with the top bit set that count is \<open>-1\<close>,
  a shift C leaves undefined: \<open>None\<close>.
\<close>

definition sext32_generic :: "u32 \<Rightarrow> i32 option" where
  "sext32_generic v =
     (if v = 0 then Some 0
      else let fill_count = builtin_clz 0 v;
               bit_pos = 32 - fill_count
           in if 32 \<le> unat (fill_count - 1) \<or> 32 \<le> unat (bit_pos - 1) then None
              else let mask = push_bit (unat (bit_pos - 1)) (push_bit (unat (fill_count - 1)) 1)
                   in Some (v OR mask))"

definition sext32_imm12 :: "u16 \<Rightarrow> i32" where
  "sext32_imm12 x_12 =
     (let x = ucast x_12 :: u32;
          mask = NOT (drop_bit 11 x - 1);
          mask = mask AND 0xfffff000
      in bit_cast_i32 (ucast x_12 OR mask))"

definition read_upper_immediate :: "u32 \<Rightarrow> u32" where
  "read_upper_immediate raw = raw AND 0xfffff000"

text \<open>
  The packed structure \<open>imm\<close> of \<open>read_j_immediate\<close> is not initialised as a whole; its
  former content is the first argument, and \<open>read_j_immediate_any\<close> shows it never matters.
  \<open>0ul - inst_31\<close> is truncated to the width of the field it is stored in.
\<close>

definition read_j_immediate_from :: "u32 \<Rightarrow> u32 \<Rightarrow> u32" where
  "read_j_immediate_from imm raw =
     (let imm = bf_set 0 1 0 imm;
          imm = bf_set 12 8 (bf_get 12 8 raw) imm;
          imm = bf_set 11 1 (bf_get 20 1 raw) imm;
          imm = bf_set 1 4 (bf_get 21 4 raw) imm;
          imm = bf_set 5 6 (bf_get 25 6 raw) imm;
          imm = bf_set 20 12 (0 - bf_get 31 1 raw) imm
      in imm)"

definition read_j_immediate :: "u32 \<Rightarrow> u32" where
  "read_j_immediate raw = read_j_immediate_from 0 raw"

definition read_b_immediate :: "u32 \<Rightarrow> u32" where
  "read_b_immediate raw =
     (let imm = 0;
          imm = bf_set 0 1 0 imm;
          imm = bf_set 11 1 (bf_get 7 1 raw) imm;
          imm = bf_set 1 4 (bf_get 8 4 raw) imm;
          imm = bf_set 5 6 (bf_get 25 6 raw) imm;
          imm = bf_set 12 20 (0 - bf_get 31 1 raw) imm
      in imm)"

definition read_s_immediate :: "u32 \<Rightarrow> u32" where
  "read_s_immediate raw =
     (let imm = 0;
          imm = bf_set 0 1 (bf_get 7 1 raw) imm;
          imm = bf_set 1 4 (bf_get 8 4 raw) imm;
          imm = bf_set 5 6 (bf_get 25 6 raw) imm;
          imm = bf_set 11 21 (0 - bf_get 31 1 raw) imm
      in imm)"

definition read_i_immediate :: "u32 \<Rightarrow> u32" where
  "read_i_immediate raw =
     (let imm = 0;
          imm = bf_set 0 1 (bf_get 20 1 raw) imm;
          imm = bf_set 1 4 (bf_get 21 4 raw) imm;
          imm = bf_set 5 6 (bf_get 25 6 raw) imm;
          imm = bf_set 11 21 (0 - bf_get 31 1 raw) imm
      in imm)"

definition read_shift_immediate :: "u32 \<Rightarrow> u32" where
  "read_shift_immediate raw = read_i_immediate raw AND 0x1f"

section \<open>The immediates bit by bit\<close>

lemma bit_mask20_const: "bit (0xfffff000 :: u32) k \<longleftrightarrow> 12 \<le> k \<and> k < 32"
proof -
  have eq: "(0xfffff000 :: u32) = NOT (mask 12)" by (simp add: mask_eq_exp_minus_1)
  show ?thesis unfolding eq by (auto simp only: bit_simps) simp_all
qed

lemma bit_upper_immediate [bits]: "bit (read_upper_immediate raw) k \<longleftrightarrow> 12 \<le> k \<and> bit raw k"
  by (auto simp: read_upper_immediate_def bit_and_iff bit_mask20_const simp del: bit_numeral_word_iff
      dest: bit_imp_le_length)

lemma bit_i_immediate [bits]:
  "bit (read_i_immediate raw) k \<longleftrightarrow> k < 32 \<and> bit raw (if k < 11 then 20 + k else 31)"
  by (auto simp: read_i_immediate_def Let_def)

lemma bit_s_immediate [bits]:
  "bit (read_s_immediate raw) k \<longleftrightarrow>
     k < 32 \<and> bit raw (if k < 5 then 7 + k else if k < 11 then 20 + k else 31)"
  by (auto simp: read_s_immediate_def Let_def)

lemma bit_b_immediate [bits]:
  "bit (read_b_immediate raw) k \<longleftrightarrow>
     0 < k \<and> k < 32 \<and>
     bit raw (if k < 5 then 7 + k else if k < 11 then 20 + k else if k = 11 then 7 else 31)"
  by (auto simp: read_b_immediate_def Let_def)

lemma bit_j_immediate_from:
  "bit (read_j_immediate_from imm raw) k \<longleftrightarrow>
     0 < k \<and> k < 32 \<and>
     bit raw (if k < 11 then 20 + k else if k = 11 then 20 else if k < 20 then k else 31)"
  by (auto simp: read_j_immediate_from_def Let_def dest: bit_imp_le_length)

lemma read_j_immediate_any: "read_j_immediate_from imm raw = read_j_immediate raw"
  by (rule bit_word_eqI) (simp add: read_j_immediate_def bit_j_immediate_from)

lemma bit_j_immediate [bits]:
  "bit (read_j_immediate raw) k \<longleftrightarrow>
     0 < k \<and> k < 32 \<and>
     bit raw (if k < 11 then 20 + k else if k = 11 then 20 else if k < 20 then k else 31)"
  by (simp add: read_j_immediate_def bit_j_immediate_from)

section \<open>The immediates as the ISA manual defines them\<close>

text \<open>
  The manual builds each immediate from fields of the instruction word, placed at their
  weights, and sign-extends it from its top bit.  \<open>fld hi lo w\<close> is \<open>inst[hi:lo]\<close>.
\<close>

definition fld :: "nat \<Rightarrow> nat \<Rightarrow> u32 \<Rightarrow> u32" where
  "fld hi lo w = take_bit (Suc hi - lo) (drop_bit lo w)"

definition sext :: "nat \<Rightarrow> u32 \<Rightarrow> u32" where
  "sext n w = signed_take_bit (n - 1) w"

definition imm_i :: "u32 \<Rightarrow> u32" where
  "imm_i w = sext 12 (fld 31 20 w)"

definition imm_s :: "u32 \<Rightarrow> u32" where
  "imm_s w = sext 12 (push_bit 5 (fld 31 25 w) OR fld 11 7 w)"

definition imm_b :: "u32 \<Rightarrow> u32" where
  "imm_b w = sext 13 (push_bit 12 (fld 31 31 w) OR push_bit 11 (fld 7 7 w)
     OR push_bit 5 (fld 30 25 w) OR push_bit 1 (fld 11 8 w))"

definition imm_u :: "u32 \<Rightarrow> u32" where
  "imm_u w = push_bit 12 (fld 31 12 w)"

definition imm_j :: "u32 \<Rightarrow> u32" where
  "imm_j w = sext 21 (push_bit 20 (fld 31 31 w) OR push_bit 12 (fld 19 12 w)
     OR push_bit 11 (fld 20 20 w) OR push_bit 1 (fld 30 21 w))"

lemma bit_sext [bits]:
  "0 < n \<Longrightarrow> bit (sext n w) k \<longleftrightarrow> k < 32 \<and> (if k < n then bit w k else bit w (n - 1))"
  by (cases "k = n - 1") (auto simp: sext_def bit_signed_take_bit_iff min_def dest: bit_imp_le_length)

lemma bit_fld [bits]: "bit (fld hi lo w) k \<longleftrightarrow> k < Suc hi - lo \<and> bit w (lo + k)"
  by (auto simp: fld_def bit_simps)

lemma read_i_immediate_eq: "read_i_immediate w = imm_i w"
  by (rule u32_eqI) (simp add: all_less_Suc_numeral imm_i_def bits bit_simps)

lemma read_s_immediate_eq: "read_s_immediate w = imm_s w"
  by (rule u32_eqI) (simp add: all_less_Suc_numeral imm_s_def bits bit_simps)

lemma read_b_immediate_eq: "read_b_immediate w = imm_b w"
  by (rule u32_eqI) (simp add: all_less_Suc_numeral imm_b_def bits bit_simps)

lemma read_upper_immediate_eq: "read_upper_immediate w = imm_u w"
  by (rule bit_word_eqI) (auto simp: imm_u_def bits bit_simps)

lemma read_j_immediate_eq: "read_j_immediate w = imm_j w"
  by (rule u32_eqI) (simp add: all_less_Suc_numeral imm_j_def bits bit_simps)

text \<open>
  Property C9. Every immediate reader returns the immediate of its instruction format as the
  ISA manual defines it, for every instruction word, and the shift amount is
  \<open>inst[24:20]\<close>.
\<close>

theorem immediates_match_isa:
  "read_i_immediate w = imm_i w \<and> read_s_immediate w = imm_s w
   \<and> read_b_immediate w = imm_b w \<and> read_upper_immediate w = imm_u w
   \<and> read_j_immediate_from uninit w = imm_j w
   \<and> read_shift_immediate w = fld 24 20 w"
proof -
  have "read_shift_immediate w = fld 24 20 w"
  proof (rule bit_word_eqI)
    fix k assume "k < LENGTH(32)"
    have "(0x1f :: u32) = mask 5" by (simp add: mask_eq_exp_minus_1)
    then have "read_shift_immediate w = take_bit 5 (read_i_immediate w)"
      by (simp add: read_shift_immediate_def take_bit_eq_mask)
    then show "bit (read_shift_immediate w) k = bit (fld 24 20 w) k"
      by (auto simp: bits bit_simps)
  qed
  then show ?thesis
    by (simp add: read_i_immediate_eq read_s_immediate_eq read_b_immediate_eq
        read_upper_immediate_eq read_j_immediate_any read_j_immediate_eq)
qed

section \<open>Ranges and alignment\<close>

lemma bit_sint: "bit (sint w) k \<longleftrightarrow> bit w (min k 31)" for w :: u32
  by (auto simp: bit_sint_iff min_def dest: bit_imp_le_length)

lemma sint_sext:
  assumes "0 < n" "n \<le> 32" shows "sint (sext n w) = signed_take_bit (n - 1) (sint w)"
proof (rule bit_eqI)
  fix k :: nat
  show "bit (sint (sext n w)) k = bit (signed_take_bit (n - 1) (sint w)) k"
    using assms by (cases "k = n - 1"; cases "n = 32")
      (auto simp: bit_sint bits bit_signed_take_bit_iff min_def)
qed

lemma sext_range:
  assumes "0 < n" "n \<le> 32"
  shows "- (2 ^ (n - 1)) \<le> sint (sext n w)" "sint (sext n w) < 2 ^ (n - 1)"
  by (simp_all only: sint_sext [OF assms] signed_take_bit_int_greater_eq_minus_exp
      signed_take_bit_int_less_exp)

lemma even_sint: "even (sint w) \<longleftrightarrow> \<not> bit w 0" for w :: u32
  using bit_sint [of w 0] by (simp add: bit_0)

lemma immediate_range_i: "- 2048 \<le> sint (read_i_immediate w)" "sint (read_i_immediate w) < 2048"
  using sext_range [of 12] by (simp_all add: read_i_immediate_eq imm_i_def)

lemma immediate_range_s: "- 2048 \<le> sint (read_s_immediate w)" "sint (read_s_immediate w) < 2048"
  using sext_range [of 12] by (simp_all add: read_s_immediate_eq imm_s_def)

lemma immediate_range_b: "- 4096 \<le> sint (read_b_immediate w)" "sint (read_b_immediate w) < 4096"
  using sext_range [of 13] by (simp_all add: read_b_immediate_eq imm_b_def)

lemma immediate_range_j:
  "- (2 ^ 20) \<le> sint (read_j_immediate w)" "sint (read_j_immediate w) < 2 ^ 20"
  using sext_range [of 21] by (simp_all add: read_j_immediate_eq imm_j_def)

text \<open>
  Property C10. Branch and jump offsets are even; branch offsets lie in
  \<open>[-4096, 4096)\<close>, jump offsets in \<open>[-2 ^ 20, 2 ^ 20)\<close>, and the I and S immediates in
  \<open>[-2048, 2048)\<close>, so adding one of them to \<open>-4\<close> or to each other never overflows.
\<close>

theorem immediate_ranges:
  "even (sint (read_b_immediate w)) \<and> sint (read_b_immediate w) \<in> {-4096 ..< 4096}
   \<and> even (sint (read_j_immediate w)) \<and> sint (read_j_immediate w) \<in> {- (2 ^ 20) ..< 2 ^ 20}
   \<and> sint (read_i_immediate w) \<in> {-2048 ..< 2048}
   \<and> sint (read_s_immediate w) \<in> {-2048 ..< 2048}"
proof -
  have "even (sint (read_b_immediate w))" "even (sint (read_j_immediate w))"
    by (simp_all add: even_sint bits)
  then show ?thesis
    using immediate_range_b [of w] immediate_range_j [of w] immediate_range_i [of w]
      immediate_range_s [of w] by simp
qed

section \<open>The sign-extension helpers\<close>

lemma sext32_imm12_sext:
  assumes "unat v < 4096" shows "sext32_imm12 (ucast v) = sext 12 v"
proof -
  have v: "take_bit 12 v = v"
    using assms by (simp add: word_unat_eq_iff unsigned_take_bit_eq take_bit_nat_eq_self)
  have top: "bit v k \<Longrightarrow> k < 12" for k
    using v by (metis bit_take_bit_iff)
  have u: "ucast (ucast v :: u16) = v"
    by (rule bit_word_eqI) (auto simp: bit_simps dest: top)
  have d: "drop_bit 11 v = of_bool (bit v 11)"
  proof (rule bit_word_eqI)
    fix k assume "k < LENGTH(32)"
    have "\<not> bit v (11 + k)" if "0 < k" using that top [of "11 + k"] by auto
    then show "bit (drop_bit 11 v) k = bit (of_bool (bit v 11) :: u32) k"
      by (cases "k = 0") (auto simp: bit_simps)
  qed
  have eq: "sext32_imm12 (ucast v) = v OR (NOT (of_bool (bit v 11) - 1) AND 0xfffff000)"
    by (simp add: sext32_imm12_def bit_cast_i32_def u d)
  show ?thesis
  proof (rule bit_word_eqI)
    fix k assume "k < LENGTH(32)"
    then show "bit (sext32_imm12 (ucast v)) k = bit (sext 12 v) k"
      unfolding eq
      by (cases "bit v 11"; cases "k = 11")
        (auto simp: bits bit_simps bit_mask20_const simp del: bit_numeral_word_iff dest: top)
  qed
qed

text \<open>
  \<open>sext32_imm12\<close> of a 12-bit field is its two's complement value on 32 bits.
\<close>

theorem sext32_imm12_scast: "sext32_imm12 (ucast (x :: 12 word)) = scast x"
proof -
  have u: "ucast (ucast x :: u32) = (ucast x :: u16)"
    by (rule bit_word_eqI) (auto simp: bit_simps)
  have "unat (ucast x :: u32) < 4096"
    using unsigned_less [of x, where 'a = nat] by (simp add: unsigned_ucast_eq take_bit_nat_eq_self)
  then have "sext32_imm12 (ucast x) = sext 12 (ucast x)"
    using sext32_imm12_sext [of "ucast x"] u by simp
  also have "\<dots> = scast x"
  proof (rule bit_word_eqI)
    fix k assume "k < LENGTH(32)"
    then show "bit (sext 12 (ucast x)) k = bit (scast x :: u32) k"
      by (cases "k = 11") (auto simp: bits bit_simps min_def dest: bit_imp_le_length)
  qed
  finally show ?thesis .
qed

lemma unat_pos_shift: "unat (32 - of_nat (32 - l) - 1 :: u32) = l - 1" if "0 < l" "l \<le> 32"
proof -
  have "(32 - of_nat (32 - l) :: u32) = of_nat l" using that by (simp add: of_nat_diff)
  then show ?thesis using that by (simp add: unat_sub word_le_nat_alt unat_of_nat)
qed

text \<open>
  \<open>sext32_generic\<close> does not extend a sign: below \<open>2 ^ 31\<close> it sets bit 30
  and nothing else, because its two shifts always add up to 30, and from \<open>2 ^ 31\<close> on its
  shift count is \<open>-1\<close>, which C leaves undefined.
\<close>

theorem sext32_generic_result:
  "sext32_generic v =
     (if v = 0 then Some 0 else if unat v < 2 ^ 31 then Some (v OR 2 ^ 30) else None)"
proof (cases "v = 0")
  case False
  let ?l = "bit_len 32 v"
  have l: "0 < ?l" "?l \<le> 32" using False bit_len_zero_iff [of v] by (auto simp: bit_len_le)
  have clz: "builtin_clz 0 v = of_nat (32 - ?l)" using False by (simp add: builtin_clz_def)
  note pos = unat_pos_shift [OF l]
  show ?thesis
  proof (cases "unat v < 2 ^ 31")
    case True
    have "2 ^ (?l - 1) < (2 :: nat) ^ 31" using bit_len_ge [OF False] True by linarith
    then have l31: "?l < 32" by (simp only: power_strict_increasing_iff)
    then have fc: "unat (of_nat (32 - ?l) - 1 :: u32) = 31 - ?l"
      by (simp add: unat_sub word_le_nat_alt unat_of_nat)
    have sum: "?l - 1 + (31 - ?l) = 30" using l l31 by simp
    have sh: "push_bit (?l - 1) (push_bit (31 - ?l) 1) = (2 ^ 30 :: u32)"
      unfolding push_bit_push_bit sum by simp
    have small: "\<not> (32 \<le> 31 - ?l \<or> 32 \<le> ?l - 1)" using l31 by arith
    show ?thesis
      unfolding sext32_generic_def Let_def clz pos fc
      using False True sh small by simp
  next
    case nless: False
    then have "?l = 32"
      using bit_len_unique [of 31 v] unat_u32_less [of v] by simp
    then show ?thesis
      using False nless unfolding sext32_generic_def Let_def clz
      by (simp add: unsigned_minus_1_eq_mask mask_eq_exp_minus_1)
  qed
qed (simp add: sext32_generic_def)

end
