(* ===== verification/Text_Out.thy ===== *)
theory Text_Out
  imports Prelude
begin

text \<open>
  What the program prints: the conversions of \<open>printf\<close> the sources use (\<open>%x\<close>,
  \<open>%08x\<close>, \<open>%u\<close>, \<open>%d\<close>) and the prefixes of the logging macros of
  common/log.h.
\<close>

section \<open>Numerals\<close>

definition digit_char :: "nat \<Rightarrow> char" where
  "digit_char d = char_of (if d < 10 then 48 + d else 87 + d)"

fun digits :: "nat \<Rightarrow> nat \<Rightarrow> string" where
  "digits b n =
     (if b < 2 \<or> n < b then [digit_char n] else digits b (n div b) @ [digit_char (n mod b)])"

declare digits.simps [simp del]

definition show_hex :: "u32 \<Rightarrow> string" where
  "show_hex w = digits 16 (unat w)"

definition show_hex8 :: "u32 \<Rightarrow> string" where
  "show_hex8 w = replicate (8 - length (show_hex w)) (CHR ''0'') @ show_hex w"

definition show_unsigned :: "nat \<Rightarrow> string" where
  "show_unsigned n = digits 10 n"

definition show_signed :: "i32 \<Rightarrow> string" where
  "show_signed w =
     (if sint w < 0 then ''-'' @ digits 10 (nat (- sint w)) else digits 10 (nat (sint w)))"

text \<open>Reading a numeral back, as the specification of the conversions.\<close>

definition char_digit :: "char \<Rightarrow> nat" where
  "char_digit c = (let n = of_char c in if n < 58 then n - 48 else n - 87)"

definition read_digits :: "nat \<Rightarrow> string \<Rightarrow> nat" where
  "read_digits b s = foldl (\<lambda>acc c. acc * b + char_digit c) 0 s"

lemma char_digit_digit_char: "d < 16 \<Longrightarrow> char_digit (digit_char d) = d"
  by (auto simp: char_digit_def digit_char_def Let_def)

lemma read_digits_digits: "2 \<le> b \<Longrightarrow> b \<le> 16 \<Longrightarrow> read_digits b (digits b n) = n"
proof (induction b n rule: digits.induct)
  case (1 b n)
  show ?case
  proof (cases "n < b")
    case True
    then show ?thesis using "1.prems"
      by (simp add: digits.simps [of b n] read_digits_def char_digit_digit_char)
  next
    case False
    then have "read_digits b (digits b (n div b)) = n div b" using 1 by simp
    moreover have "n mod b < 16"
      using "1.prems" mod_less_divisor [of b n] by linarith
    ultimately show ?thesis using False "1.prems"
      by (simp add: digits.simps [of b n] read_digits_def char_digit_digit_char)
  qed
qed

lemma read_digits_zeros: "read_digits b (replicate k (CHR ''0'') @ s) = read_digits b s"
proof -
  have "foldl (\<lambda>acc c. acc * b + char_digit c) 0 (replicate k (CHR ''0'')) = 0"
    by (induction k) (simp_all add: char_digit_def)
  then show ?thesis by (simp add: read_digits_def)
qed

lemma length_digits: "n < b ^ Suc k \<Longrightarrow> 2 \<le> b \<Longrightarrow> length (digits b n) \<le> Suc k"
proof (induction k arbitrary: n)
  case 0
  then show ?case by (simp add: digits.simps [of b n])
next
  case (Suc k)
  have "n div b < b ^ Suc k" using Suc.prems by (intro less_mult_imp_div_less) (simp add: mult.commute)
  with Suc show ?case by (simp add: digits.simps [of b n])
qed

text \<open>\<open>%08x\<close> prints exactly eight digits, which read back as the value.\<close>

lemma show_hex8_length: "length (show_hex8 w) = 8"
proof -
  have "unat w < 16 ^ Suc 7" using unat_u32_less [of w] by simp
  then have "length (show_hex w) \<le> Suc 7" unfolding show_hex_def by (rule length_digits) simp
  then show ?thesis by (simp add: show_hex8_def)
qed

lemma read_show_hex8: "read_digits 16 (show_hex8 w) = unat w"
  by (simp add: show_hex8_def read_digits_zeros show_hex_def read_digits_digits)

section \<open>The logging macros\<close>

text \<open>
  \<open>warn\<close>, \<open>error\<close> and \<open>log\<close> print the file name in bold, the line and the level
  before the message.
\<close>

definition log_prefix :: "string \<Rightarrow> string \<Rightarrow> nat \<Rightarrow> string" where
  "log_prefix level file line =
     [char_of (27 :: nat)] @ ''[1m'' @ file @ [char_of (27 :: nat)] @ ''[m:'' @
     show_unsigned line @ '':'' @ [char_of (9 :: nat)] @ level @ '': ''"

definition log_warn :: "string \<Rightarrow> nat \<Rightarrow> string \<Rightarrow> string" where
  "log_warn file line msg = log_prefix ''warn'' file line @ msg"

definition log_error :: "string \<Rightarrow> nat \<Rightarrow> string \<Rightarrow> string" where
  "log_error file line msg = log_prefix ''error'' file line @ msg"

definition log_info :: "string \<Rightarrow> nat \<Rightarrow> string \<Rightarrow> string" where
  "log_info file line msg = log_prefix ''info'' file line @ msg"

definition newline :: string where
  "newline = [char_of (10 :: nat)]"

end
