(* ===== verification/Outcome.thy ===== *)
theory Outcome
  imports Prelude
begin

text \<open>
  How a run of the emulator can stop, and the plumbing of results.  The C code never
  returns an error from the interpreter: it aborts, traps, fails an assertion, or touches
  memory it does not own.  Each of these is a value here, and so is behaviour that C leaves
  undefined, so that no branch of the code is lost.  \<open>Undefined\<close> does not say that the
  program stops there, but that C promises nothing from there on (a signed sum that
  overflows usually wraps, some libraries print a null string as \<open>(null)\<close>); a property that
  speaks of stopping says which stop it means.
\<close>

datatype halt =
    Abort_misaligned_pc          \<comment> \<open>\<open>abort()\<close> on a pc that is not a multiple of 4\<close>
  | Trap_illegal                 \<comment> \<open>\<open>__builtin_trap()\<close> on the all-zero instruction\<close>
  | Trap_unaligned_store         \<comment> \<open>\<open>__builtin_trap()\<close> on a misaligned \<open>sw\<close>\<close>
  | Assertion_failed string      \<comment> \<open>a failed \<open>assert\<close>, with its message\<close>
  | Segfault u64                 \<comment> \<open>an access to a host address that is not mapped for it\<close>
  | Undefined string             \<comment> \<open>behaviour undefined in C\<close>

type_synonym 'a result = "halt + 'a"

definition bind_r :: "'e + 'a \<Rightarrow> ('a \<Rightarrow> 'e + 'b) \<Rightarrow> 'e + 'b" where
  "bind_r r f = (case r of Inl e \<Rightarrow> Inl e | Inr x \<Rightarrow> f x)"

lemma bind_r_simps [simp]:
  "bind_r (Inl e) f = Inl e" "bind_r (Inr x) f = f x"
  by (simp_all add: bind_r_def)

lemma bind_r_Inr_iff:
  "bind_r r f = Inr y \<longleftrightarrow> (\<exists>x. r = Inr x \<and> f x = Inr y)"
  by (cases r) auto

lemma bind_r_Inl_iff:
  "bind_r r f = Inl e \<longleftrightarrow> r = Inl e \<or> (\<exists>x. r = Inr x \<and> f x = Inl e)"
  by (cases r) auto

lemma bind_r_assoc: "bind_r (bind_r r f) g = bind_r r (\<lambda>x. bind_r (f x) g)"
  by (cases r) auto

text \<open>
  \<open>assert(!"msg")\<close>: fails, unless the build defines \<open>NDEBUG\<close>, which removes it.  The
  build file of the repository does not define it.
\<close>

definition assert_false :: "bool \<Rightarrow> string \<Rightarrow> 'a \<Rightarrow> 'a result" where
  "assert_false ndebug msg x = (if ndebug then Inr x else Inl (Assertion_failed msg))"

lemma assert_false_simps [simp]:
  "assert_false True msg x = Inr x" "assert_false False msg x = Inl (Assertion_failed msg)"
  by (simp_all add: assert_false_def)

text \<open>
  A table of strings given by designated initialisers: the entries not named are null.
  Printing an entry with \<open>%s\<close> is undefined outside the table and for a null entry.
\<close>

definition designated :: "nat \<Rightarrow> (nat \<times> string) list \<Rightarrow> string option list" where
  "designated n entries = map (map_of entries) [0..<n]"

definition table_string :: "string option list \<Rightarrow> u32 \<Rightarrow> string result" where
  "table_string t i =
     (if unat i < length t
      then case t ! unat i of Some s \<Rightarrow> Inr s | None \<Rightarrow> Inl (Undefined ''null string'')
      else Inl (Undefined ''index out of bounds''))"

lemma table_string_designated:
  "table_string (designated n entries) i =
     (if unat i < n
      then case map_of entries (unat i) of
             Some s \<Rightarrow> Inr s | None \<Rightarrow> Inl (Undefined ''null string'')
      else Inl (Undefined ''index out of bounds''))"
  by (simp add: table_string_def designated_def)

end
