(* ===== verification/Dasm.thy ===== *)
theory Dasm
  imports Rv_Bits Text_Out Outcome
begin

text \<open>
  rv/dasm.c: the disassembler, which the interpreter runs on every instruction before it
  executes it.  \<open>dasm ndebug raw insn_offset\<close> is the text printed for the instruction
  word \<open>raw\<close> at \<open>insn_offset\<close>, or why there is none: a failed assertion, which stops the program,
  or a name that C leaves undefined, after which C promises nothing.
\<close>

section \<open>Name tables\<close>

definition abi_reg_names :: "string list" where
  "abi_reg_names =
     [''zero'', ''ra'', ''sp'', ''gp'', ''tp'', ''t0'', ''t1'', ''t2'',
      ''s0'', ''s1'', ''a0'', ''a1'', ''a2'', ''a3'', ''a4'', ''a5'',
      ''a6'', ''a7'', ''s2'', ''s3'', ''s4'', ''s5'', ''s6'', ''s7'',
      ''s8'', ''s9'', ''s10'', ''s11'', ''t3'', ''t4'', ''t5'', ''t6'']"

text \<open>Indexed by a 5-bit field, so always inside the table.\<close>

definition reg_name :: "bitfield \<Rightarrow> u32 \<Rightarrow> string" where
  "reg_name f raw = abi_reg_names ! unat (fget f raw)"

definition opcode_names :: "string option list" where
  "opcode_names = designated 124
     [(0b0000011, ''op_load''), (0b0000111, ''op_load_fp''), (0b0001011, ''op_custom_0''),
      (0b0001111, ''op_misc_mem''), (0b0010011, ''op_imm''), (0b0010111, ''op_auipc''),
      (0b0011011, ''op_imm_32''), (0b0100011, ''op_store''), (0b0100111, ''op_store_fp''),
      (0b0101011, ''op_custom_1''), (0b0101111, ''op_amo''), (0b0110011, ''op_op''),
      (0b0110111, ''op_lui''), (0b0111011, ''op_op_32''), (0b1000011, ''op_madd''),
      (0b1000111, ''op_msub''), (0b1001011, ''op_nmsub''), (0b1001111, ''op_nmadd''),
      (0b1010011, ''op_fp''), (0b1010111, ''reserved: 0b10100''),
      (0b1011011, ''op_custom2_rv128''), (0b1100011, ''op_branch''), (0b1100111, ''op_jalr''),
      (0b1101011, ''reserved: 0b11010''), (0b1110011, ''op_system''),
      (0b1110111, ''reserved:  0b11101''), (0b1111011, ''op_custom3_rv128'')]"

definition load_func_names :: "string option list" where
  "load_func_names = designated 6
     [(0, ''lb''), (1, ''lh''), (2, ''lw''), (4, ''lbu''), (5, ''lhu'')]"

definition branch_names :: "string option list" where
  "branch_names = designated 8
     [(0, ''beq''), (1, ''bne''), (4, ''blt''), (5, ''bge''), (6, ''bltu''), (7, ''bgeu'')]"

definition imm_names :: "string option list" where
  "imm_names = designated 8
     [(0, ''addi''), (2, ''slti''), (3, ''sltiu''), (4, ''xori''), (6, ''ori''),
      (7, ''andi''), (1, ''slli''), (5, ''srli'')]"

definition store_modes :: "string option list" where
  "store_modes = designated 3 [(0, ''sb''), (1, ''sh''), (2, ''sw'')]"

text \<open>Two names per row: without and with a non-zero \<open>funct7\<close>.\<close>

definition op_inames :: "(string \<times> string) list" where
  "op_inames =
     [(''add'', ''sub''), (''sll'', ''sll''), (''slt'', ''slt''), (''sltu'', ''sltu''),
      (''xor'', ''xor''), (''srl'', ''sra''), (''or'', ''or''), (''and'', ''and'')]"

section \<open>The cases of the switch\<close>

definition positive_hex :: "i32 \<Rightarrow> string result" where
  "positive_hex imm =
     (case make_positive imm of
        None \<Rightarrow> Inl (Undefined ''signed overflow'')
      | Some p \<Rightarrow> Inr ((if sint imm < 0 then ''-'' else '''') @ ''0x'' @ show_hex p))"

definition dasm_jalr :: "u32 \<Rightarrow> string result" where
  "dasm_jalr raw =
     (let imm = bit_cast_i32 (read_i_immediate raw) in
      bind_r (positive_hex imm) (\<lambda>t.
        Inr (''jalr '' @ reg_name rd raw @ '', '' @ t @ ''('' @ reg_name rs1 raw @ '')'')))"

definition dasm_jal :: "u32 \<Rightarrow> u32 \<Rightarrow> string result" where
  "dasm_jal raw insn_offset =
     Inr (''jal '' @ reg_name rd raw @ '', 0x'' @
          show_hex (insn_offset + bit_cast_i32 (read_j_immediate raw)))"

definition dasm_auipc :: "u32 \<Rightarrow> string result" where
  "dasm_auipc raw =
     Inr (''auipc '' @ reg_name rd raw @ '', 0x'' @ show_hex (read_upper_immediate raw))"

definition dasm_load :: "u32 \<Rightarrow> string result" where
  "dasm_load raw =
     bind_r (table_string load_func_names (fget funct3 raw)) (\<lambda>name.
       Inr (name @ '' '' @ reg_name rd raw @ '', '' @
            show_signed (bit_cast_i32 (read_i_immediate raw)) @ ''('' @ reg_name rs1 raw @ '')''))"

definition dasm_branch :: "u32 \<Rightarrow> u32 \<Rightarrow> string result" where
  "dasm_branch raw insn_offset =
     (let imm = bit_cast_i32 (read_b_immediate raw) in
      bind_r (table_string branch_names (fget funct3 raw)) (\<lambda>name.
        Inr (name @ '' '' @ reg_name rs1 raw @ '', '' @ reg_name rs2 raw @ '', 0x'' @
             show_hex (insn_offset + imm))))"

definition dasm_lui :: "u32 \<Rightarrow> string result" where
  "dasm_lui raw = Inr (''lui '' @ reg_name rd raw @ '', '' @ show_hex (fget u_imm_31_12 raw))"

definition dasm_imm_arith :: "u32 \<Rightarrow> string result" where
  "dasm_imm_arith raw =
     (let imm = bit_cast_i32 (read_i_immediate raw) in
      bind_r (table_string imm_names (fget funct3 raw)) (\<lambda>name.
      bind_r (positive_hex imm) (\<lambda>t.
        Inr (name @ '' '' @ reg_name rd raw @ '', '' @ reg_name rs1 raw @ '', '' @ t))))"

definition dasm_imm :: "bool \<Rightarrow> u32 \<Rightarrow> string result" where
  "dasm_imm ndebug raw =
     (case imm_func_of (fget funct3 raw) of
        Some imm_func_slli \<Rightarrow>
          Inr (''slli '' @ reg_name rd raw @ '', '' @ reg_name rs1 raw @ '', 0x'' @
               show_hex (read_shift_immediate raw))
      | Some imm_func_srli \<Rightarrow>
          assert_false ndebug ''TODO: disassemble sr[la]i instructions'' []
      | Some _ \<Rightarrow> dasm_imm_arith raw
      | None \<Rightarrow> Inr [])"

text \<open>The sign is printed as a minus for either outcome of \<open>imm < 0\<close>.\<close>

definition dasm_store :: "u32 \<Rightarrow> string result" where
  "dasm_store raw =
     (let imm = bit_cast_i32 (read_s_immediate raw) in
      bind_r (table_string store_modes (fget funct3 raw)) (\<lambda>name.
        Inr (name @ '' '' @ reg_name rs2 raw @ '', '' @
             (if sint imm < 0 then ''-'' else ''-'') @ ''0x'' @ show_hex imm @
             ''('' @ reg_name rs1 raw @ '')'')))"

definition dasm_op :: "u32 \<Rightarrow> string result" where
  "dasm_op raw =
     (let has_funct7 = fget r_funct7 raw \<noteq> 0;
          row = op_inames ! unat (fget funct3 raw)
      in Inr ((if has_funct7 then snd row else fst row) @ '' '' @ reg_name rd raw @ '', '' @
              reg_name rs1 raw @ '', '' @ reg_name rs2 raw))"

definition dasm_system :: "u32 \<Rightarrow> string result" where
  "dasm_system raw =
     (case ecall_imm_of (fget i_imm_11_0 raw) of
        Some ecall_ecall \<Rightarrow> Inr ''ecall''
      | Some ecall_ebreak \<Rightarrow> Inr ''ebreak''
      | None \<Rightarrow> Inr [])"

fun dasm_todo :: "insn_op \<Rightarrow> bool" where
  "dasm_todo op_load_fp = True"
| "dasm_todo op_custom_0 = True"
| "dasm_todo op_misc_mem = True"
| "dasm_todo op_imm_32 = True"
| "dasm_todo op_store_fp = True"
| "dasm_todo op_custom_1 = True"
| "dasm_todo op_amo = True"
| "dasm_todo op_op_32 = True"
| "dasm_todo op_madd = True"
| "dasm_todo op_msub = True"
| "dasm_todo op_nmsub = True"
| "dasm_todo op_nmadd = True"
| "dasm_todo op_fp = True"
| "dasm_todo op_custom2_rv128 = True"
| "dasm_todo op_custom3_rv128 = True"
| "dasm_todo _ = False"

definition dasm_switch :: "bool \<Rightarrow> u32 \<Rightarrow> u32 \<Rightarrow> string result" where
  "dasm_switch ndebug raw insn_offset =
     (case op_of (fget opcode raw) of
        None \<Rightarrow> Inr []
      | Some op_jalr \<Rightarrow> dasm_jalr raw
      | Some op_jal \<Rightarrow> dasm_jal raw insn_offset
      | Some op_auipc \<Rightarrow> dasm_auipc raw
      | Some op_load \<Rightarrow> dasm_load raw
      | Some op_branch \<Rightarrow> dasm_branch raw insn_offset
      | Some op_lui \<Rightarrow> dasm_lui raw
      | Some op_imm \<Rightarrow> dasm_imm ndebug raw
      | Some op_store \<Rightarrow> dasm_store raw
      | Some op_op \<Rightarrow> dasm_op raw
      | Some op_system \<Rightarrow> dasm_system raw
      | Some _ \<Rightarrow> assert_false ndebug ''TODO: disassemble'' [])"

definition dasm :: "bool \<Rightarrow> u32 \<Rightarrow> u32 \<Rightarrow> string result" where
  "dasm ndebug raw insn_offset =
     (let start = (if raw = 0 then ''<illegal>'' else []) in
      bind_r (dasm_switch ndebug raw insn_offset) (\<lambda>t. Inr (start @ t)))"

section \<open>When there is no text\<close>

lemma fget_less: "unat (fget (BF lo n) w) < 2 ^ n"
  by (simp add: unat_bf_get_less)

lemma reg_name_in_table:
  "unat (fget rd w) < length abi_reg_names" "unat (fget rs1 w) < length abi_reg_names"
  "unat (fget rs2 w) < length abi_reg_names"
  using fget_less [of 7 5 w] fget_less [of 15 5 w] fget_less [of 20 5 w]
  by (simp_all add: layout abi_reg_names_def)

lemma u32_less_8_cases:
  fixes v :: u32
  assumes "unat v < 8"
  obtains "v = 0" | "v = 1" | "v = 2" | "v = 3" | "v = 4" | "v = 5" | "v = 6" | "v = 7"
proof -
  have v: "v = of_nat (unat v)" by simp
  from assms have "unat v \<in> {0, 1, 2, 3, 4, 5, 6, 7}" by auto
  then have "v \<in> of_nat ` {0, 1, 2, 3, 4, 5, 6, 7}" using v by (metis imageI)
  then show thesis using that by auto
qed

lemma funct3_cases:
  obtains "fget funct3 w = 0" | "fget funct3 w = 1" | "fget funct3 w = 2" | "fget funct3 w = 3"
  | "fget funct3 w = 4" | "fget funct3 w = 5" | "fget funct3 w = 6" | "fget funct3 w = 7"
  using u32_less_8_cases [of "fget funct3 w"] fget_less [of 12 3 w] by (auto simp: layout)

lemma make_positive_small:
  "sint v \<noteq> - 2147483648 \<Longrightarrow> make_positive v \<noteq> None"
  by (auto simp: make_positive_def)

lemma positive_hex_i [simp]: "positive_hex (bit_cast_i32 (read_i_immediate w)) \<noteq> Inl h"
proof -
  have "sint (read_i_immediate w) \<noteq> - (2 ^ 31)" using immediate_range_i [of w] by auto
  then show ?thesis
    by (auto simp: positive_hex_def bit_cast_i32_def dest: make_positive_small split: option.splits)
qed

lemmas dasm_cases =
  dasm_jalr_def dasm_jal_def dasm_auipc_def dasm_load_def dasm_branch_def dasm_lui_def
  dasm_imm_def dasm_imm_arith_def dasm_store_def dasm_op_def dasm_system_def

lemma imm_func_of_cases:
  "imm_func_of 0 = Some imm_func_addi" "imm_func_of 1 = Some imm_func_slli"
  "imm_func_of 2 = Some imm_func_slti" "imm_func_of 3 = Some imm_func_sltiu"
  "imm_func_of 4 = Some imm_func_xori" "imm_func_of 5 = Some imm_func_srli"
  "imm_func_of 6 = Some imm_func_ori" "imm_func_of 7 = Some imm_func_andi"
  by (simp_all add: imm_func_of_def enum_of_def)

text \<open>
  The failures one by one: a failed assertion, a null pointer given to \<open>%s\<close>, and a read
  outside a table.
\<close>

definition dasm_asserts :: "u32 \<Rightarrow> string option" where
  "dasm_asserts w =
     (case op_of (fget opcode w) of
        None \<Rightarrow> None
      | Some a \<Rightarrow>
          if a = op_imm \<and> fget funct3 w = 5 then Some ''TODO: disassemble sr[la]i instructions''
          else if dasm_todo a then Some ''TODO: disassemble'' else None)"

definition null_name :: "u32 \<Rightarrow> bool" where
  "null_name w \<longleftrightarrow> op_of (fget opcode w) = Some op_load \<and> fget funct3 w = 3
     \<or> op_of (fget opcode w) = Some op_branch \<and> fget funct3 w \<in> {2, 3}"

definition name_out_of_table :: "u32 \<Rightarrow> bool" where
  "name_out_of_table w \<longleftrightarrow> op_of (fget opcode w) = Some op_load \<and> fget funct3 w \<in> {6, 7}
     \<or> op_of (fget opcode w) = Some op_store \<and> fget funct3 w \<notin> {0, 1, 2}"

lemma dasm_load_fails:
  "dasm_load w = Inl h \<longleftrightarrow> fget funct3 w = 3 \<and> h = Undefined ''null string''
     \<or> fget funct3 w \<in> {6, 7} \<and> h = Undefined ''index out of bounds''"
  by (cases rule: funct3_cases [of w])
    (auto simp: dasm_load_def load_func_names_def table_string_designated)

lemma dasm_branch_fails:
  "dasm_branch w off = Inl h \<longleftrightarrow> fget funct3 w \<in> {2, 3} \<and> h = Undefined ''null string''"
  by (cases rule: funct3_cases [of w])
    (auto simp: dasm_branch_def Let_def branch_names_def table_string_designated)

lemma dasm_store_fails:
  "dasm_store w = Inl h \<longleftrightarrow> fget funct3 w \<notin> {0, 1, 2} \<and> h = Undefined ''index out of bounds''"
  by (cases rule: funct3_cases [of w])
    (auto simp: dasm_store_def Let_def store_modes_def table_string_designated)

lemma dasm_imm_fails:
  "dasm_imm nd w = Inl h \<longleftrightarrow>
     \<not> nd \<and> fget funct3 w = 5 \<and> h = Assertion_failed ''TODO: disassemble sr[la]i instructions''"
  by (cases rule: funct3_cases [of w]; cases nd)
    (auto simp: dasm_imm_def imm_func_of_cases dasm_imm_arith_def Let_def imm_names_def
      table_string_designated bind_r_Inl_iff)

lemma dasm_fails:
  "dasm nd w off = Inl h \<longleftrightarrow>
     \<not> nd \<and> (\<exists>msg. dasm_asserts w = Some msg \<and> h = Assertion_failed msg)
     \<or> null_name w \<and> h = Undefined ''null string''
     \<or> name_out_of_table w \<and> h = Undefined ''index out of bounds''"
proof (cases "op_of (fget opcode w)")
  case None
  then show ?thesis
    by (simp add: dasm_def dasm_switch_def dasm_asserts_def null_name_def name_out_of_table_def)
next
  case (Some a)
  have "dasm nd w off = Inl h \<longleftrightarrow> dasm_switch nd w off = Inl h"
    by (simp add: dasm_def Let_def bind_r_Inl_iff)
  also have "\<dots> \<longleftrightarrow> \<not> nd \<and> (\<exists>msg. dasm_asserts w = Some msg \<and> h = Assertion_failed msg)
     \<or> null_name w \<and> h = Undefined ''null string''
     \<or> name_out_of_table w \<and> h = Undefined ''index out of bounds''"
    by (cases a)
      (simp_all add: Some dasm_switch_def dasm_load_fails dasm_branch_fails dasm_store_fails dasm_imm_fails
        dasm_jalr_def dasm_jal_def dasm_auipc_def dasm_lui_def dasm_op_def dasm_system_def
        dasm_asserts_def null_name_def name_out_of_table_def assert_false_def
        Let_def bind_r_Inl_iff eq_commute [of _ h] split: option.split ecall_imm.split)
  finally show ?thesis .
qed

lemma dasm_stops:
  "(\<exists>h. dasm nd w off = Inl h) \<longleftrightarrow>
     (case op_of (fget opcode w) of
        None \<Rightarrow> False
      | Some a \<Rightarrow>
          a = op_load \<and> fget funct3 w \<in> {3, 6, 7}
          \<or> a = op_branch \<and> fget funct3 w \<in> {2, 3}
          \<or> a = op_store \<and> fget funct3 w \<notin> {0, 1, 2}
          \<or> \<not> nd \<and> (a = op_imm \<and> fget funct3 w = 5 \<or> dasm_todo a))"
proof -
  have "(\<exists>h. dasm nd w off = Inl h) \<longleftrightarrow> \<not> nd \<and> dasm_asserts w \<noteq> None \<or> null_name w \<or> name_out_of_table w"
    unfolding dasm_fails by blast
  then show ?thesis
    unfolding dasm_asserts_def null_name_def name_out_of_table_def by (auto split: option.split)
qed

text \<open>
  Property C33. What becomes of printing an instruction, for every word: an assertion fails
  exactly for the right shifts by an immediate and the opcodes marked TODO, unless
  assertions are compiled out; \<open>%s\<close> gets a null pointer exactly for the load and branch
  functions that the tables skip (undefined in C; some libraries print \<open>(null)\<close> and go on); a
  table is read past its end exactly for the load functions 6 and 7 and the store functions
  from 3; and in every other case a text is printed.
\<close>

theorem dasm_outcomes:
  "(dasm nd w off = Inl (Assertion_failed msg) \<longleftrightarrow> \<not> nd \<and> dasm_asserts w = Some msg)
   \<and> (dasm nd w off = Inl (Undefined ''null string'') \<longleftrightarrow> null_name w)
   \<and> (dasm nd w off = Inl (Undefined ''index out of bounds'') \<longleftrightarrow> name_out_of_table w)
   \<and> ((\<exists>t. dasm nd w off = Inr t) \<longleftrightarrow>
        (nd \<or> dasm_asserts w = None) \<and> \<not> null_name w \<and> \<not> name_out_of_table w)"
proof -
  have "(\<exists>t. dasm nd w off = Inr t) \<longleftrightarrow> (\<forall>h. dasm nd w off \<noteq> Inl h)" by (cases "dasm nd w off") auto
  moreover have "\<not> (null_name w \<and> name_out_of_table w)" by (auto simp: null_name_def name_out_of_table_def)
  ultimately show ?thesis unfolding dasm_fails by (cases "dasm_asserts w") auto
qed

section \<open>What is printed\<close>

text \<open>
  Every store is printed with a minus sign and the unsigned digits of its
  offset, whatever the sign of the offset: a store at offset 4 reads \<open>-0x4\<close>.
\<close>

theorem dasm_store_always_minus:
  assumes "op_of (fget opcode w) = Some op_store" "fget funct3 w = store_func_code f"
  shows "\<exists>mode. dasm nd w off = Inr (mode @ '' '' @ reg_name rs2 w @ '', -0x'' @
           show_hex (imm_s w) @ ''('' @ reg_name rs1 w @ '')'')"
proof -
  have "w \<noteq> 0" using assms(1) by (auto simp: op_of_Some_iff layout bf_get_def)
  then show ?thesis
    using assms by (cases f)
      (simp_all add: dasm_def dasm_switch_def dasm_store_def store_modes_def
        table_string_designated bit_cast_i32_def read_s_immediate_eq)
qed

text \<open>\<open>sw a0, 4(sp)\<close> is the word \<open>0x00a12223\<close>.\<close>

theorem dasm_store_always_minus_witness:
  "op_of (fget opcode 0x00a12223) = Some op_store \<and> imm_s 0x00a12223 = 4
   \<and> (\<exists>mode. dasm False 0x00a12223 0 = Inr (mode @ '' '' @ reg_name rs2 0x00a12223 @ '', -0x'' @
           show_hex (imm_s 0x00a12223) @ ''('' @ reg_name rs1 0x00a12223 @ '')''))"
proof -
  have op: "op_of (fget opcode 0x00a12223) = Some op_store"
    by (simp add: op_of_Some_iff layout bf_get_def)
  moreover have "fget funct3 0x00a12223 = store_func_code store_func_sw"
    by (simp add: layout bf_get_def)
  ultimately show ?thesis
    using dasm_store_always_minus [of "0x00a12223" store_func_sw False 0]
    by (simp add: imm_s_def sext_def fld_def)
qed

text \<open>
  The exported table \<open>opcode_names\<close> has a name for every opcode of the
  enumeration but one: \<open>op_jal\<close> was left out, so its entry is null.
\<close>

theorem opcode_names_missing_jal:
  "(\<exists>s. table_string opcode_names (op_code a) = Inr s) \<longleftrightarrow> a \<noteq> op_jal"
  by (cases a) (simp_all add: opcode_names_def table_string_designated)

end
