(* ===== verification/Machine.thy ===== *)
theory Machine
  imports Outcome Insn
begin

text \<open>
  The state the emulator works on: the register file of \<open>struct rv32i\<close> with its two
  accessors, and the bytes of the host process it reads and writes through pointers.  Each
  has a contract, stated as a locale, that its clients use instead of its definition.
\<close>

section \<open>The register file\<close>

record rv32i =
  registers :: "u32 list"

text \<open>
  Register 0 is a sink that reads as 0; register \<open>i\<close> is stored at index \<open>i - 1\<close>, so the last
  of the 32 entries is never used.  Every caller passes a 5-bit field (\<open>reg_field\<close>), so the
  index is inside the array.
\<close>

definition write_register :: "rv32i \<Rightarrow> u8 \<Rightarrow> u32 \<Rightarrow> rv32i" where
  "write_register cpu reg_index value =
     (if reg_index \<noteq> 0
      then cpu\<lparr>registers := (registers cpu)[unat (reg_index - 1) := value]\<rparr>
      else cpu)"

definition read_register :: "rv32i \<Rightarrow> u8 \<Rightarrow> u32" where
  "read_register cpu reg_index =
     (if reg_index = 0 then 0 else registers cpu ! unat (reg_index - 1))"

text \<open>\<open>struct rv32i cpu = {0}\<close>.\<close>

definition zero_cpu :: rv32i where
  "zero_cpu = \<lparr>registers = replicate 32 0\<rparr>"

definition cpu_ok :: "rv32i \<Rightarrow> bool" where
  "cpu_ok cpu \<longleftrightarrow> length (registers cpu) = 32"

text \<open>
  The contract of a register file with a hard-wired zero: \<open>valid\<close> states, register
  indices \<open>reg\<close> that exist, and the effect of a write on every read.
\<close>

locale register_file =
  fixes get :: "'c \<Rightarrow> 'r \<Rightarrow> u32" and put :: "'c \<Rightarrow> 'r \<Rightarrow> u32 \<Rightarrow> 'c"
    and zero :: 'r and valid :: "'c \<Rightarrow> bool" and reg :: "'r \<Rightarrow> bool"
  assumes read_zero: "get c zero = 0"
    and read_write: "valid c \<Longrightarrow> reg r \<Longrightarrow> reg q \<Longrightarrow>
      get (put c r v) q = (if q = r \<and> r \<noteq> zero then v else get c q)"
    and valid_write: "valid c \<Longrightarrow> reg r \<Longrightarrow> valid (put c r v)"
begin

lemma write_zero: "valid c \<Longrightarrow> reg zero \<Longrightarrow> reg q \<Longrightarrow> get (put c zero v) q = get c q"
  by (simp add: read_write)

lemma read_own_write: "valid c \<Longrightarrow> reg r \<Longrightarrow> r \<noteq> zero \<Longrightarrow> get (put c r v) r = v"
  by (simp add: read_write)

lemma last_write_wins: "valid c \<Longrightarrow> reg r \<Longrightarrow> reg q \<Longrightarrow>
    get (put (put c r u) r v) q = get (put c r v) q"
  by (simp add: read_write valid_write)

lemma writes_commute: "valid c \<Longrightarrow> reg r \<Longrightarrow> reg r' \<Longrightarrow> r \<noteq> r' \<Longrightarrow> reg q \<Longrightarrow>
    get (put (put c r u) r' v) q = get (put (put c r' v) r u) q"
  by (auto simp: read_write valid_write)

end

lemma unat_pred_u8: "r \<noteq> 0 \<Longrightarrow> unat (r - 1) = unat r - 1" for r :: u8
  by (simp add: unat_minus_one)

lemma unat_u8_pos: "r \<noteq> 0 \<longleftrightarrow> 0 < unat r" for r :: u8
  by (simp add: unat_gt_0)

interpretation regs: register_file read_register write_register 0 cpu_ok "\<lambda>r. unat r < 32"
proof
  fix c :: rv32i and r q :: u8 and v :: u32
  assume "cpu_ok c" "unat r < 32" "unat q < 32"
  then show "read_register (write_register c r v) q
    = (if q = r \<and> r \<noteq> 0 then v else read_register c q)"
    by (auto simp: read_register_def write_register_def cpu_ok_def unat_pred_u8 unat_u8_pos
        nth_list_update word_unat_eq_iff)
qed (auto simp: read_register_def write_register_def cpu_ok_def)

section \<open>Host memory\<close>

text \<open>
  The address space of the emulator process: the bytes that are mapped, and which of them
  may be written (\<open>mprotect\<close> of the loader, \<open>PROT_READ\<close> of a mapped file).
\<close>

record host_mem =
  cells :: "u64 \<Rightarrow> u8 option"
  writable :: "u64 \<Rightarrow> bool"

definition load_u8 :: "host_mem \<Rightarrow> u64 \<Rightarrow> u8 result" where
  "load_u8 m a = (case cells m a of None \<Rightarrow> Inl (Segfault a) | Some b \<Rightarrow> Inr b)"

definition store_u8 :: "host_mem \<Rightarrow> u64 \<Rightarrow> u8 \<Rightarrow> host_mem result" where
  "store_u8 m a b =
     (if cells m a = None \<or> \<not> writable m a then Inl (Segfault a)
      else Inr (m\<lparr>cells := (cells m)(a := Some b)\<rparr>))"

text \<open>Reading and writing a \<open>u32\<close>, little-endian.\<close>

definition load_u32 :: "host_mem \<Rightarrow> u64 \<Rightarrow> u32 result" where
  "load_u32 m a =
     bind_r (load_u8 m a) (\<lambda>b0.
     bind_r (load_u8 m (a + 1)) (\<lambda>b1.
     bind_r (load_u8 m (a + 2)) (\<lambda>b2.
     bind_r (load_u8 m (a + 3)) (\<lambda>b3.
       Inr (of_le32 b0 b1 b2 b3)))))"

definition store_u32 :: "host_mem \<Rightarrow> u64 \<Rightarrow> u32 \<Rightarrow> host_mem result" where
  "store_u32 m a v =
     bind_r (store_u8 m a (ucast v)) (\<lambda>m.
     bind_r (store_u8 m (a + 1) (ucast (drop_bit 8 v))) (\<lambda>m.
     bind_r (store_u8 m (a + 2) (ucast (drop_bit 16 v))) (\<lambda>m.
       store_u8 m (a + 3) (ucast (drop_bit 24 v)))))"

text \<open>
  The contract of a byte-addressed store: a successful write changes one byte, and leaves
  what may be written as it was.
\<close>

locale byte_store =
  fixes get :: "'m \<Rightarrow> 'a \<Rightarrow> 'e + u8" and put :: "'m \<Rightarrow> 'a \<Rightarrow> u8 \<Rightarrow> 'e + 'm"
    and may_write :: "'m \<Rightarrow> 'a \<Rightarrow> bool"
  assumes get_put: "put m a b = Inr m' \<Longrightarrow> get m' x = (if x = a then Inr b else get m x)"
    and put_ok: "(\<exists>m'. put m a b = Inr m') \<longleftrightarrow> may_write m a"
    and may_write_put: "put m a b = Inr m' \<Longrightarrow> may_write m' x = may_write m x"
begin

lemma get_own_put: "put m a b = Inr m' \<Longrightarrow> get m' a = Inr b"
  by (simp add: get_put)

lemma put_frame: "put m a b = Inr m' \<Longrightarrow> x \<noteq> a \<Longrightarrow> get m' x = get m x"
  by (simp add: get_put)

lemma put_obtain: "may_write m a \<Longrightarrow> \<exists>m'. put m a b = Inr m'"
  by (simp add: put_ok)

lemma two_puts_commute:
  assumes "put m a b = Inr m1" "put m1 a' b' = Inr m2"
    "put m a' b' = Inr n1" "put n1 a b = Inr n2" "a \<noteq> a'"
  shows "get m2 x = get n2 x"
  using get_put [OF assms(1)] get_put [OF assms(2)] get_put [OF assms(3)] get_put [OF assms(4)]
    assms(5) by auto

end

definition mem_writable :: "host_mem \<Rightarrow> u64 \<Rightarrow> bool" where
  "mem_writable m a \<longleftrightarrow> cells m a \<noteq> None \<and> writable m a"

interpretation host: byte_store load_u8 store_u8 mem_writable
  by unfold_locales
    (auto simp: load_u8_def store_u8_def mem_writable_def split: if_splits)

end
