(* ===== verification/Step_Machine.thy ===== *)
theory Step_Machine
  imports Outcome
begin

text \<open>
  Machines that step until they stop: \<open>step s\<close> is the next state, or the reason there is
  none.  \<open>iter\<close> takes a number of steps, \<open>run\<close> runs with a bound on the steps, \<open>loop\<close>
  is the unbounded loop of the source (\<open>None\<close> where it never returns), \<open>reach\<close> the
  reachability relation.  The two locales hold what is common to every such machine: an
  invariant that a step keeps is kept by a whole run, and a step-by-step simulation is a
  simulation of whole runs.
\<close>

fun iter :: "('s \<Rightarrow> 'h + 's) \<Rightarrow> nat \<Rightarrow> 's \<Rightarrow> 's option" where
  "iter step 0 s = Some s"
| "iter step (Suc n) s = (case step s of Inl h \<Rightarrow> None | Inr s' \<Rightarrow> iter step n s')"

fun run :: "('s \<Rightarrow> 'h + 's) \<Rightarrow> nat \<Rightarrow> 's \<Rightarrow> ('h \<times> 's) option" where
  "run step 0 s = None"
| "run step (Suc n) s = (case step s of Inl h \<Rightarrow> Some (h, s) | Inr s' \<Rightarrow> run step n s')"

partial_function (option) loop :: "('s \<Rightarrow> 'h + 's) \<Rightarrow> 's \<Rightarrow> ('h \<times> 's) option" where
  "loop step s = (case step s of Inl h \<Rightarrow> Some (h, s) | Inr s' \<Rightarrow> loop step s')"

inductive reach :: "('s \<Rightarrow> 'h + 's) \<Rightarrow> 's \<Rightarrow> 's \<Rightarrow> bool" for step where
  reach_refl [intro]: "reach step s s"
| reach_step: "reach step s t \<Longrightarrow> step t = Inr u \<Longrightarrow> reach step s u"

inductive_cases reach_elim: "reach step s u"
inductive_simps reach_simp: "reach step s u"

section \<open>Runs compose\<close>

lemma iter_add: "iter step (m + n) s = Option.bind (iter step m s) (iter step n)"
  by (induction m arbitrary: s) (auto split: sum.split)

lemma iter_trans:
  "iter step m s = Some t \<Longrightarrow> iter step n t = Some u \<Longrightarrow> iter step (m + n) s = Some u"
  by (simp add: iter_add)

lemma iter_Suc_end:
  "iter step (Suc n) s = (case iter step n s of None \<Rightarrow> None
     | Some t \<Rightarrow> (case step t of Inl h \<Rightarrow> None | Inr u \<Rightarrow> Some u))"
  using iter_add [of step n "Suc 0" s] by (simp split: option.split sum.split)

lemma iter_reach: "iter step n s = Some t \<Longrightarrow> reach step s t"
proof (induction n arbitrary: t)
  case (Suc n)
  then show ?case
    by (auto simp only: iter_Suc_end split: option.splits sum.splits intro: reach_step)
qed auto

lemma reach_iter: "reach step s t \<Longrightarrow> \<exists>n. iter step n s = Some t"
proof (induction rule: reach.induct)
  case (reach_refl s)
  have "iter step 0 s = Some s" by simp
  then show ?case by blast
next
  case (reach_step s t u)
  then obtain n where "iter step n s = Some t" by blast
  with reach_step have "iter step (Suc n) s = Some u" by (simp only: iter_Suc_end) simp
  then show ?case by blast
qed

lemma reach_trans: "reach step t u \<Longrightarrow> reach step s t \<Longrightarrow> reach step s u"
  by (induction rule: reach.induct) (auto intro: reach_step)

lemma run_iter:
  "iter step m s = Some t \<Longrightarrow> run step (m + n) s = run step n t"
  by (induction m arbitrary: s) (auto split: sum.splits)

lemma run_mono: "run step n s = Some r \<Longrightarrow> n \<le> m \<Longrightarrow> run step m s = Some r"
proof (induction n arbitrary: s m)
  case (Suc n)
  then obtain k where "m = Suc k" "n \<le> k" by (cases m) auto
  with Suc show ?case by (auto split: sum.splits)
qed simp

lemma run_deterministic:
  "run step n s = Some r \<Longrightarrow> run step m s = Some q \<Longrightarrow> r = q"
  by (metis nat_le_linear option.inject run_mono)

lemma run_end: "run step n s = Some (h, t) \<Longrightarrow> reach step s t \<and> step t = Inl h"
proof (induction n arbitrary: s)
  case (Suc n)
  show ?case
  proof (cases "step s")
    case (Inr u)
    with Suc have "reach step u t \<and> step t = Inl h" by simp
    moreover have "reach step s u" using Inr by (blast intro: reach_step)
    ultimately show ?thesis using reach_trans by metis
  qed (use Suc.prems in auto)
qed simp

section \<open>The unbounded loop\<close>

lemma run_loop: "run step n s = Some r \<Longrightarrow> loop step s = Some r"
proof (induction n arbitrary: s)
  case (Suc n)
  then show ?case by (subst loop.simps) (auto split: sum.splits)
qed simp

lemma loop_run: "loop step s = Some r \<Longrightarrow> \<exists>n. run step n s = Some r"
proof (rule loop.raw_induct [where P = "\<lambda>step s r. \<exists>n. run step n s = Some r"])
  fix f :: "('s \<Rightarrow> 'h + 's) \<Rightarrow> 's \<Rightarrow> ('h \<times> 's) option" and st s r
  assume IH: "\<And>st s r. f st s = Some r \<Longrightarrow> \<exists>n. run st n s = Some r"
    and eq: "(case st s of Inl h \<Rightarrow> Some (h, s) | Inr s' \<Rightarrow> f st s') = Some r"
  show "\<exists>n. run st n s = Some r"
  proof (cases "st s")
    case (Inl h)
    with eq have "run st (Suc 0) s = Some r" by simp
    then show ?thesis by blast
  next
    case (Inr u)
    with eq have "f st u = Some r" by simp
    then obtain n where "run st n u = Some r" using IH by blast
    with Inr have "run st (Suc n) s = Some r" by simp
    then show ?thesis by blast
  qed
qed

lemma loop_iff_run: "loop step s = Some r \<longleftrightarrow> (\<exists>n. run step n s = Some r)"
  using run_loop loop_run by metis

section \<open>Invariants and simulations\<close>

locale step_invariant =
  fixes step :: "'s \<Rightarrow> 'h + 's" and inv :: "'s \<Rightarrow> bool"
  assumes inv_step: "inv s \<Longrightarrow> step s = Inr t \<Longrightarrow> inv t"
begin

lemma inv_reach: "reach step s t \<Longrightarrow> inv s \<Longrightarrow> inv t"
  by (induction rule: reach.induct) (auto intro: inv_step)

lemma inv_iter: "iter step n s = Some t \<Longrightarrow> inv s \<Longrightarrow> inv t"
  using inv_reach iter_reach by metis

lemma inv_run: "run step n s = Some (h, t) \<Longrightarrow> inv s \<Longrightarrow> inv t"
  using inv_reach run_end by metis

end

text \<open>
  A simulation: whatever step the abstract machine takes, the concrete machine takes one or
  more steps to a related state.
\<close>

locale step_simulation =
  fixes astep :: "'a \<Rightarrow> 'e + 'a" and cstep :: "'c \<Rightarrow> 'h + 'c"
    and rel :: "'a \<Rightarrow> 'c \<Rightarrow> bool"
  assumes sim: "rel a c \<Longrightarrow> astep a = Inr a' \<Longrightarrow>
    \<exists>n c'. iter cstep (Suc n) c = Some c' \<and> rel a' c'"
begin

lemma sim_iter: "iter astep n a = Some a' \<Longrightarrow> rel a c \<Longrightarrow>
    \<exists>m c'. n \<le> m \<and> iter cstep m c = Some c' \<and> rel a' c'"
proof (induction n arbitrary: a c)
  case 0
  then have "iter cstep 0 c = Some c \<and> rel a' c" by simp
  then show ?case by blast
next
  case (Suc n)
  then obtain b where b: "astep a = Inr b" "iter astep n b = Some a'"
    by (auto split: sum.splits)
  then obtain k d where d: "iter cstep (Suc k) c = Some d" "rel b d"
    using sim Suc.prems by metis
  then obtain m e where e: "n \<le> m" "iter cstep m d = Some e" "rel a' e"
    using Suc.IH b by metis
  have "iter cstep (Suc k + m) c = Some e" using iter_trans d e by metis
  moreover have "Suc n \<le> Suc k + m" using e by simp
  ultimately show ?case using e by blast
qed

lemma sim_run: "run astep n a = Some (e, a') \<Longrightarrow> rel a c \<Longrightarrow>
    astep a' = Inl e \<and> (\<exists>m c'. iter cstep m c = Some c' \<and> rel a' c')"
  using run_end reach_iter sim_iter by metis

end

text \<open>A simulation step for step, which keeps the number of steps.\<close>

locale lockstep =
  fixes astep :: "'a \<Rightarrow> 'e + 'a" and cstep :: "'c \<Rightarrow> 'h + 'c"
    and rel :: "'a \<Rightarrow> 'c \<Rightarrow> bool"
  assumes lock: "rel a c \<Longrightarrow> astep a = Inr a' \<Longrightarrow> \<exists>c'. cstep c = Inr c' \<and> rel a' c'"
begin

lemma lock_iter: "iter astep n a = Some a' \<Longrightarrow> rel a c \<Longrightarrow>
    \<exists>c'. iter cstep n c = Some c' \<and> rel a' c'"
proof (induction n arbitrary: a c)
  case (Suc n)
  then obtain b where b: "astep a = Inr b" "iter astep n b = Some a'"
    by (auto split: sum.splits)
  then obtain d where "cstep c = Inr d" "rel b d" using lock Suc.prems by metis
  with Suc.IH b show ?case by auto
qed auto

end

sublocale lockstep \<subseteq> step_simulation
proof
  fix a c a' assume "rel a c" "astep a = Inr a'"
  then obtain c' where c: "cstep c = Inr c' \<and> rel a' c'" using lock by blast
  then have "iter cstep (Suc 0) c = Some c'" by simp
  with c show "\<exists>n c'. iter cstep (Suc n) c = Some c' \<and> rel a' c'" by blast
qed

end
