(* ===== verification/Interpret.thy ===== *)
theory Interpret
  imports Dasm Machine Step_Machine
begin

text \<open>
  interpret.c: one definition per case of the interpreter's switch, composed by
  \<open>execute\<close> as the switch does, and \<open>step\<close>, the body of the endless loop: check the
  alignment of the instruction pointer, fetch, log, disassemble, refuse the all-zero word,
  execute, and add 4 to the pc in the loop footer.  A jump therefore leaves \<open>pc\<close> four
  below its target.  \<open>ndebug\<close> says whether assertions are compiled out; a failed
  \<open>assert\<close> of an unimplemented instruction then falls out of the switch.
\<close>

record machine =
  cpu :: rv32i
  pc :: u32
  memory :: u64           \<comment> \<open>the host pointer \<open>memory\<close>\<close>
  mem :: host_mem
  stdout :: string
  stderr :: string

text \<open>A bit field passed as the \<open>u8\<close> index of a register.\<close>

definition reg_field :: "bitfield \<Rightarrow> u32 \<Rightarrow> u8" where
  "reg_field f raw = ucast (fget f raw)"

definition read_reg :: "machine \<Rightarrow> bitfield \<Rightarrow> u32 \<Rightarrow> u32" where
  "read_reg s f raw = read_register (cpu s) (reg_field f raw)"

definition set_reg :: "machine \<Rightarrow> u32 \<Rightarrow> u32 \<Rightarrow> machine" where
  "set_reg s raw v = s\<lparr>cpu := write_register (cpu s) (reg_field rd raw) v\<rparr>"

text \<open>Addition of two \<open>i32\<close>: undefined in C when the sum does not fit.\<close>

definition add_i32 :: "i32 \<Rightarrow> i32 \<Rightarrow> i32 result" where
  "add_i32 a b =
     (if sint a + sint b < - (2 ^ 31) \<or> 2 ^ 31 \<le> sint a + sint b
      then Inl (Undefined ''signed overflow'') else Inr (a + b))"

section \<open>The cases of the switch\<close>

definition exec_jalr :: "u32 \<Rightarrow> machine \<Rightarrow> machine result" where
  "exec_jalr raw s =
     (let jump_pc = (read_i_immediate raw + read_reg s rs1 raw) AND NOT 1;
          s = set_reg s raw (pc s + 4)
      in Inr (s\<lparr>pc := jump_pc - 4\<rparr>))"

definition exec_jal :: "u32 \<Rightarrow> machine \<Rightarrow> machine result" where
  "exec_jal raw s =
     (let offt = read_j_immediate raw;
          jump_pc = pc s + offt;
          s = set_reg s raw (pc s + 4)
      in Inr (s\<lparr>pc := jump_pc - 4\<rparr>))"

definition exec_lui :: "u32 \<Rightarrow> machine \<Rightarrow> machine result" where
  "exec_lui raw s = Inr (set_reg s raw (read_upper_immediate raw))"

definition exec_auipc :: "u32 \<Rightarrow> machine \<Rightarrow> machine result" where
  "exec_auipc raw s = Inr (set_reg s raw (pc s + read_upper_immediate raw))"

text \<open>The shared case of the two right shifts by an immediate.\<close>

definition shift_right_imm :: "u32 \<Rightarrow> u32 \<Rightarrow> u32" where
  "shift_right_imm raw src =
     (let imm = read_i_immediate raw;
          shift_count = ucast (read_shift_immediate raw) :: u8;
          is_SRAI = bit imm 12;
          top_bit = bit src 31 \<and> is_SRAI;
          bit_addend = push_bit (31 - unat shift_count) (NOT (of_bool top_bit) + 1)
      in drop_bit (unat shift_count) src OR bit_addend)"

definition exec_imm :: "u32 \<Rightarrow> machine \<Rightarrow> machine result" where
  "exec_imm raw s =
     (case imm_func_of (fget funct3 raw) of
        None \<Rightarrow> Inr s
      | Some imm_func_addi \<Rightarrow>
          bind_r (add_i32 (bit_cast_i32 (read_reg s rs1 raw)) (bit_cast_i32 (read_i_immediate raw)))
            (\<lambda>v. Inr (set_reg s raw v))
      | Some imm_func_slti \<Rightarrow>
          (let signed_xrs1 = bit_cast_i32 (read_reg s rs1 raw);
               signed_imm = bit_cast_i32 (read_i_immediate raw)
           in Inr (set_reg s raw (of_bool (sint signed_xrs1 < sint signed_imm))))
      | Some imm_func_sltiu \<Rightarrow>
          Inr (set_reg s raw (of_bool (read_reg s rs1 raw < read_i_immediate raw)))
      | Some imm_func_xori \<Rightarrow> Inr (set_reg s raw (read_reg s rs1 raw XOR read_i_immediate raw))
      | Some imm_func_ori \<Rightarrow> Inr (set_reg s raw (read_reg s rs1 raw OR read_i_immediate raw))
      | Some imm_func_andi \<Rightarrow> Inr (set_reg s raw (read_reg s rs1 raw AND read_i_immediate raw))
      | Some imm_func_slli \<Rightarrow>
          Inr (set_reg s raw (push_bit (unat (read_shift_immediate raw)) (read_reg s rs1 raw)))
      | Some _ \<Rightarrow> Inr (set_reg s raw (shift_right_imm raw (read_reg s rs1 raw))))"

text \<open>
  The address of a load or store is formed by two host pointer additions of sign-extended
  32-bit offsets.
\<close>

definition load_location :: "u32 \<Rightarrow> machine \<Rightarrow> u64" where
  "load_location raw s =
     (let offset = bit_cast_i32 (read_reg s rs1 raw);
          mem_loc = memory s + scast offset
      in mem_loc + scast (sext32_imm12 (ucast (fget i_imm_11_0 raw))))"

definition exec_load :: "bool \<Rightarrow> u32 \<Rightarrow> machine \<Rightarrow> machine result" where
  "exec_load ndebug raw s =
     (case load_func_of (fget funct3 raw) of
        None \<Rightarrow> Inr s
      | Some load_func_lbu \<Rightarrow>
          bind_r (load_u8 (mem s) (load_location raw s)) (\<lambda>b. Inr (set_reg s raw (ucast b)))
      | Some _ \<Rightarrow> assert_false ndebug ''not implemented load'' s)"

definition store_location :: "u32 \<Rightarrow> machine \<Rightarrow> u64" where
  "store_location raw s =
     (let offset = sext32_imm12 (ucast (fget s_imm_4_0 raw OR push_bit 5 (fget s_imm_11_5 raw)))
      in memory s + scast offset + scast (bit_cast_i32 (read_reg s rs1 raw)))"

definition exec_store :: "bool \<Rightarrow> u32 \<Rightarrow> machine \<Rightarrow> machine result" where
  "exec_store ndebug raw s =
     (let mem_loc = store_location raw s in
      case store_func_of (fget funct3 raw) of
        None \<Rightarrow> Inr s
      | Some store_func_sb \<Rightarrow>
          bind_r (store_u8 (mem s) mem_loc (ucast (read_reg s rs2 raw))) (\<lambda>m. Inr (s\<lparr>mem := m\<rparr>))
      | Some store_func_sw \<Rightarrow>
          if unat mem_loc mod 4 \<noteq> 0 then Inl Trap_unaligned_store
          else bind_r (store_u32 (mem s) mem_loc (read_reg s rs2 raw)) (\<lambda>m. Inr (s\<lparr>mem := m\<rparr>))
      | Some store_func_sh \<Rightarrow> assert_false ndebug ''not implemented store'' s)"

definition exec_branch :: "bool \<Rightarrow> u32 \<Rightarrow> machine \<Rightarrow> machine result" where
  "exec_branch ndebug raw s =
     (let offset = bit_cast_i32 (read_b_immediate raw);
          a = read_reg s rs1 raw;
          b = read_reg s rs2 raw;
          taken = s\<lparr>pc := pc s + (offset - 4)\<rparr>
      in case branch_func_of (fget funct3 raw) of
           None \<Rightarrow> Inr s
         | Some branch_func_bne \<Rightarrow> Inr (if a \<noteq> b then taken else s)
         | Some branch_func_beq \<Rightarrow> Inr (if a = b then taken else s)
         | Some branch_func_bgeu \<Rightarrow> Inr (if b \<le> a then taken else s)
         | Some branch_func_bltu \<Rightarrow> Inr (if a < b then taken else s)
         | Some _ \<Rightarrow> assert_false ndebug ''not implemented branch'' s)"

text \<open>The add case also prints a word to the standard output.\<close>

definition exec_op :: "bool \<Rightarrow> u32 \<Rightarrow> machine \<Rightarrow> machine result" where
  "exec_op ndebug raw s =
     (case op_funct3_of (fget funct3 raw) of
        None \<Rightarrow> Inr s
      | Some op_funct3_or \<Rightarrow> Inr (set_reg s raw (read_reg s rs1 raw OR read_reg s rs2 raw))
      | Some op_funct3_add \<Rightarrow>
          (let s1 = read_reg s rs1 raw;
               s2 = read_reg s rs2 raw;
               s = s\<lparr>stdout := stdout s @ ''add''\<rparr>;
               s2 = (if fget r_funct7 raw = op_funct7_code op_funct7_sub then - s2 else s2)
           in Inr (set_reg s raw (s1 + s2)))
      | Some _ \<Rightarrow> assert_false ndebug ''not implemented r-type op.'' s)"

definition execute :: "bool \<Rightarrow> u32 \<Rightarrow> machine \<Rightarrow> machine result" where
  "execute ndebug raw s =
     (case op_of (fget opcode raw) of
        None \<Rightarrow> Inr s
      | Some op_jalr \<Rightarrow> exec_jalr raw s
      | Some op_jal \<Rightarrow> exec_jal raw s
      | Some op_lui \<Rightarrow> exec_lui raw s
      | Some op_auipc \<Rightarrow> exec_auipc raw s
      | Some op_imm \<Rightarrow> exec_imm raw s
      | Some op_load \<Rightarrow> exec_load ndebug raw s
      | Some op_store \<Rightarrow> exec_store ndebug raw s
      | Some op_branch \<Rightarrow> exec_branch ndebug raw s
      | Some op_op \<Rightarrow> exec_op ndebug raw s
      | Some _ \<Rightarrow> assert_false ndebug ''not implemented'' s)"

section \<open>The loop\<close>

definition insn_ptr :: "machine \<Rightarrow> u64" where
  "insn_ptr s = memory s + ucast (pc s)"

definition log_insn :: "u32 \<Rightarrow> u32 \<Rightarrow> string" where
  "log_insn at raw =
     log_info ''interpret.c'' 43 (''insn @ 0x'' @ show_hex8 at @ '': (0x'' @ show_hex8 raw @ '') '')"

definition step :: "bool \<Rightarrow> machine \<Rightarrow> machine result" where
  "step ndebug s =
     (if insn_ptr s AND 3 \<noteq> 0 then Inl Abort_misaligned_pc
      else bind_r (load_u32 (mem s) (insn_ptr s)) (\<lambda>raw.
           bind_r (dasm ndebug raw (pc s)) (\<lambda>text.
             let s = s\<lparr>stderr := stderr s @ log_insn (pc s) raw @ text @ newline\<rparr> in
             if raw = 0 then Inl Trap_illegal
             else bind_r (execute ndebug raw s) (\<lambda>s. Inr (s\<lparr>pc := pc s + 4\<rparr>)))))"

definition start_machine :: "u64 \<Rightarrow> host_mem \<Rightarrow> u32 \<Rightarrow> machine" where
  "start_machine base m entrypoint =
     \<lparr>cpu = zero_cpu, pc = entrypoint, memory = base, mem = m, stdout = [], stderr = []\<rparr>"

text \<open>
  \<open>interpret_loop\<close> is the function \<open>interpret\<close>: the endless loop from the entry point; \<open>None\<close> when it never stops,
  otherwise why it stopped and the state in which it did.
\<close>

definition interpret_loop :: "bool \<Rightarrow> u64 \<Rightarrow> host_mem \<Rightarrow> u32 \<Rightarrow> (halt \<times> machine) option" where
  "interpret_loop ndebug base m entrypoint = loop (step ndebug) (start_machine base m entrypoint)"

end
