(* ===== verification/Isa_Spec.thy ===== *)
theory Isa_Spec
  imports Rv_Bits
begin

text \<open>
  The abstract specification of the emulator: the base integer instruction set RV32I of the
  RISC-V user-level manual (version 2.2, the document interpret.c and rv/insn.h cite), as
  decoded instructions over a guest state.  Nothing here mentions the C code; the words
  \<open>fld\<close> and \<open>imm_*\<close> are the manual's \<open>inst[hi:lo]\<close> and immediates.  Where the manual
  leaves the choice to the execution environment, a misaligned jump target or multi-byte
  store stops the hart.
\<close>

section \<open>Instructions\<close>

datatype alu_op = Add | Sub | Sll | Slt | Sltu | Xor | Srl | Sra | Or | And
datatype cond = Beq | Bne | Blt | Bge | Bltu | Bgeu
datatype load = Lb | Lh | Lw | Lbu | Lhu
datatype store = Sb | Sh | Sw

datatype insn =
    Lui u8 u32
  | Auipc u8 u32
  | Jal u8 u32
  | Jalr u8 u8 u32
  | Branch cond u8 u8 u32
  | Load load u8 u8 u32
  | Store store u8 u8 u32
  | Opi alu_op u8 u8 u32
  | Op alu_op u8 u8 u8
  | Fence
  | Ecall
  | Ebreak

definition cond_of :: "u32 \<Rightarrow> cond option" where
  "cond_of f3 =
     (if f3 = 0 then Some Beq else if f3 = 1 then Some Bne else if f3 = 4 then Some Blt
      else if f3 = 5 then Some Bge else if f3 = 6 then Some Bltu
      else if f3 = 7 then Some Bgeu else None)"

definition load_of :: "u32 \<Rightarrow> load option" where
  "load_of f3 =
     (if f3 = 0 then Some Lb else if f3 = 1 then Some Lh else if f3 = 2 then Some Lw
      else if f3 = 4 then Some Lbu else if f3 = 5 then Some Lhu else None)"

definition store_of :: "u32 \<Rightarrow> store option" where
  "store_of f3 =
     (if f3 = 0 then Some Sb else if f3 = 1 then Some Sh else if f3 = 2 then Some Sw else None)"

text \<open>The immediate operations: the shifts use \<open>inst[31:25]\<close> and a 5-bit amount.\<close>

definition opi_of :: "u32 \<Rightarrow> u32 \<Rightarrow> alu_op option" where
  "opi_of f3 f7 =
     (if f3 = 0 then Some Add else if f3 = 2 then Some Slt else if f3 = 3 then Some Sltu
      else if f3 = 4 then Some Xor else if f3 = 6 then Some Or else if f3 = 7 then Some And
      else if f3 = 1 \<and> f7 = 0 then Some Sll
      else if f3 = 5 \<and> f7 = 0 then Some Srl
      else if f3 = 5 \<and> f7 = 32 then Some Sra else None)"

definition opi_operand :: "alu_op \<Rightarrow> u32 \<Rightarrow> u32" where
  "opi_operand k w = (if k \<in> {Sll, Srl, Sra} then fld 24 20 w else imm_i w)"

definition alu_of :: "u32 \<Rightarrow> u32 \<Rightarrow> alu_op option" where
  "alu_of f3 f7 =
     (if f7 = 0 then
        (if f3 = 0 then Some Add else if f3 = 1 then Some Sll else if f3 = 2 then Some Slt
         else if f3 = 3 then Some Sltu else if f3 = 4 then Some Xor else if f3 = 5 then Some Srl
         else if f3 = 6 then Some Or else if f3 = 7 then Some And else None)
      else if f7 = 32 then
        (if f3 = 0 then Some Sub else if f3 = 5 then Some Sra else None)
      else None)"

definition decode :: "u32 \<Rightarrow> insn option" where
  "decode w =
     (let op = fld 6 0 w; d = ucast (fld 11 7 w); f3 = fld 14 12 w;
          s1 = ucast (fld 19 15 w); s2 = ucast (fld 24 20 w); f7 = fld 31 25 w
      in if op = 0b0110111 then Some (Lui d (imm_u w))
         else if op = 0b0010111 then Some (Auipc d (imm_u w))
         else if op = 0b1101111 then Some (Jal d (imm_j w))
         else if op = 0b1100111 then (if f3 = 0 then Some (Jalr d s1 (imm_i w)) else None)
         else if op = 0b1100011 then map_option (\<lambda>c. Branch c s1 s2 (imm_b w)) (cond_of f3)
         else if op = 0b0000011 then map_option (\<lambda>k. Load k d s1 (imm_i w)) (load_of f3)
         else if op = 0b0100011 then map_option (\<lambda>k. Store k s1 s2 (imm_s w)) (store_of f3)
         else if op = 0b0010011
           then map_option (\<lambda>k. Opi k d s1 (opi_operand k w)) (opi_of f3 f7)
         else if op = 0b0110011 then map_option (\<lambda>k. Op k d s1 s2) (alu_of f3 f7)
         else if op = 0b0001111 then (if f3 = 0 then Some Fence else None)
         else if w = 0x00000073 then Some Ecall
         else if w = 0x00100073 then Some Ebreak
         else None)"

section \<open>The hart\<close>

record hart =
  xreg :: "u8 \<Rightarrow> u32"
  xpc :: u32
  xmem :: "u32 \<Rightarrow> u8 option"
  xwr :: "u32 \<Rightarrow> bool"

datatype hart_stop = Misaligned | Access_fault u32 | Illegal | Environment

fun alu :: "alu_op \<Rightarrow> u32 \<Rightarrow> u32 \<Rightarrow> u32" where
  "alu Add a b = a + b"
| "alu Sub a b = a - b"
| "alu Sll a b = push_bit (unat (take_bit 5 b)) a"
| "alu Slt a b = of_bool (sint a < sint b)"
| "alu Sltu a b = of_bool (a < b)"
| "alu Xor a b = a XOR b"
| "alu Srl a b = drop_bit (unat (take_bit 5 b)) a"
| "alu Sra a b = signed_drop_bit (unat (take_bit 5 b)) a"
| "alu Or a b = a OR b"
| "alu And a b = a AND b"

fun cond_holds :: "cond \<Rightarrow> u32 \<Rightarrow> u32 \<Rightarrow> bool" where
  "cond_holds Beq a b = (a = b)"
| "cond_holds Bne a b = (a \<noteq> b)"
| "cond_holds Blt a b = (sint a < sint b)"
| "cond_holds Bge a b = (sint b \<le> sint a)"
| "cond_holds Bltu a b = (a < b)"
| "cond_holds Bgeu a b = (b \<le> a)"

text \<open>Consecutive guest bytes.\<close>

fun guest_read :: "(u32 \<Rightarrow> u8 option) \<Rightarrow> u32 \<Rightarrow> nat \<Rightarrow> hart_stop + u8 list" where
  "guest_read m a 0 = Inr []"
| "guest_read m a (Suc n) =
     (case m a of
        None \<Rightarrow> Inl (Access_fault a)
      | Some b \<Rightarrow> (case guest_read m (a + 1) n of Inl e \<Rightarrow> Inl e | Inr bs \<Rightarrow> Inr (b # bs)))"

fun guest_write :: "u32 \<Rightarrow> u8 list \<Rightarrow> hart \<Rightarrow> hart_stop + hart" where
  "guest_write a [] h = Inr h"
| "guest_write a (b # bs) h =
     (if xmem h a = None \<or> \<not> xwr h a then Inl (Access_fault a)
      else guest_write (a + 1) bs (h\<lparr>xmem := (xmem h)(a := Some b)\<rparr>))"

fun of_le :: "u8 list \<Rightarrow> u32" where
  "of_le [] = 0"
| "of_le (b # bs) = ucast b OR push_bit 8 (of_le bs)"

fun load_size :: "load \<Rightarrow> nat" where
  "load_size Lb = 1" | "load_size Lbu = 1" | "load_size Lh = 2" | "load_size Lhu = 2"
| "load_size Lw = 4"

fun load_value :: "load \<Rightarrow> u8 list \<Rightarrow> u32" where
  "load_value Lb bs = sext 8 (of_le bs)"
| "load_value Lh bs = sext 16 (of_le bs)"
| "load_value Lw bs = of_le bs"
| "load_value Lbu bs = of_le bs"
| "load_value Lhu bs = of_le bs"

fun store_bytes :: "store \<Rightarrow> u32 \<Rightarrow> u8 list" where
  "store_bytes Sb v = [ucast v]"
| "store_bytes Sh v = [ucast v, ucast (drop_bit 8 v)]"
| "store_bytes Sw v = le32 v"

definition set_x :: "u8 \<Rightarrow> u32 \<Rightarrow> hart \<Rightarrow> hart" where
  "set_x d v h = (if d = 0 then h else h\<lparr>xreg := (xreg h)(d := v)\<rparr>)"

definition next_pc :: "hart \<Rightarrow> hart" where
  "next_pc h = h\<lparr>xpc := xpc h + 4\<rparr>"

definition jump_to :: "u32 \<Rightarrow> hart \<Rightarrow> hart_stop + hart" where
  "jump_to t h = (if t AND 3 \<noteq> 0 then Inl Misaligned else Inr (h\<lparr>xpc := t\<rparr>))"

fun hart_exec :: "insn \<Rightarrow> hart \<Rightarrow> hart_stop + hart" where
  "hart_exec (Lui d imm) h = Inr (next_pc (set_x d imm h))"
| "hart_exec (Auipc d imm) h = Inr (next_pc (set_x d (xpc h + imm) h))"
| "hart_exec (Jal d off) h = jump_to (xpc h + off) (set_x d (xpc h + 4) h)"
| "hart_exec (Jalr d s off) h =
     jump_to ((xreg h s + off) AND NOT 1) (set_x d (xpc h + 4) h)"
| "hart_exec (Branch c s1 s2 off) h =
     (if cond_holds c (xreg h s1) (xreg h s2) then jump_to (xpc h + off) h
      else Inr (next_pc h))"
| "hart_exec (Load k d s off) h =
     (case guest_read (xmem h) (xreg h s + off) (load_size k) of
        Inl e \<Rightarrow> Inl e
      | Inr bs \<Rightarrow> Inr (next_pc (set_x d (load_value k bs) h)))"
| "hart_exec (Store k s1 s2 off) h =
     (let a = xreg h s1 + off; bs = store_bytes k (xreg h s2) in
      if unat a mod length bs \<noteq> 0 then Inl Misaligned
      else case guest_write a bs h of Inl e \<Rightarrow> Inl e | Inr h' \<Rightarrow> Inr (next_pc h'))"
| "hart_exec (Opi k d s v) h = Inr (next_pc (set_x d (alu k (xreg h s) v) h))"
| "hart_exec (Op k d s1 s2) h = Inr (next_pc (set_x d (alu k (xreg h s1) (xreg h s2)) h))"
| "hart_exec Fence h = Inr (next_pc h)"
| "hart_exec Ecall h = Inl Environment"
| "hart_exec Ebreak h = Inl Environment"

definition fetch :: "hart \<Rightarrow> hart_stop + u32" where
  "fetch h =
     (if xpc h AND 3 \<noteq> 0 then Inl Misaligned
      else case guest_read (xmem h) (xpc h) 4 of Inl e \<Rightarrow> Inl e | Inr bs \<Rightarrow> Inr (of_le bs))"

definition hart_step :: "hart \<Rightarrow> hart_stop + hart" where
  "hart_step h =
     (case fetch h of
        Inl e \<Rightarrow> Inl e
      | Inr w \<Rightarrow> (case decode w of None \<Rightarrow> Inl Illegal | Some i \<Rightarrow> hart_exec i h))"

lemma of_le_four: "of_le [a, b, c, d] = of_le32 a b c d"
  by (simp add: of_le32_def push_bit_or or.assoc)

end
