(* ===== verification/Refinement.thy ===== *)
theory Refinement
  imports Interpret Isa_Spec
begin

text \<open>
  The interpreter implements the instruction set: \<open>hart_of\<close> reads the guest hart out of
  the emulator's state, and every step the specification takes on an instruction the
  emulator supports is the emulator's step, seen through \<open>hart_of\<close>.  \<open>emulated\<close> lists
  what is supported; the section after the main theorem says what happens to the rest.
\<close>

section \<open>The abstraction\<close>

text \<open>
  Guest addresses below \<open>guest_limit\<close>: the emulator adds sign-extended 32-bit offsets to
  a 64-bit pointer, so the upper half of the guest's addresses would lie below \<open>memory\<close>,
  and within 2 KiB of the middle the immediate could carry an address across it.
\<close>

definition guest_limit :: nat where
  "guest_limit = 2 ^ 31 - 2048"

definition host_addr :: "machine \<Rightarrow> u32 \<Rightarrow> u64" where
  "host_addr c a = memory c + ucast a"

definition hart_of :: "machine \<Rightarrow> hart" where
  "hart_of c =
     \<lparr>xreg = (\<lambda>r. if unat r < 32 then read_register (cpu c) r else 0),
      xpc = pc c,
      xmem = (\<lambda>a. if unat a < guest_limit then cells (mem c) (host_addr c a) else None),
      xwr = (\<lambda>a. writable (mem c) (host_addr c a))\<rparr>"

definition machine_ok :: "machine \<Rightarrow> bool" where
  "machine_ok c \<longleftrightarrow> cpu_ok (cpu c) \<and> memory c AND 3 = 0"

text \<open>The instructions the emulator supports, in a given state.\<close>

fun emulated :: "bool \<Rightarrow> insn \<Rightarrow> hart \<Rightarrow> bool" where
  "emulated nd (Branch k s1 s2 off) h = (k \<in> {Beq, Bne, Bltu, Bgeu})"
| "emulated nd (Load k d s off) h = (k = Lbu)"
| "emulated nd (Store k s1 s2 off) h = (k \<in> {Sb, Sw})"
| "emulated nd (Opi k d s v) h =
     (case k of
        Add \<Rightarrow> - (2 ^ 31) \<le> sint (xreg h s) + sint v \<and> sint (xreg h s) + sint v < 2 ^ 31
      | Srl \<Rightarrow> nd
      | Sra \<Rightarrow> False
      | _ \<Rightarrow> True)"
| "emulated nd (Op k d s1 s2) h = (k \<in> {Add, Sub, Or})"
| "emulated nd Fence h = False"
| "emulated nd Ecall h = False"
| "emulated nd Ebreak h = False"
| "emulated nd i h = True"

section \<open>Fields and registers\<close>

lemma fget_opcode: "fget opcode w = fld 6 0 w" and fget_rd: "fget rd w = fld 11 7 w"
  and fget_funct3: "fget funct3 w = fld 14 12 w" and fget_rs1: "fget rs1 w = fld 19 15 w"
  and fget_rs2: "fget rs2 w = fld 24 20 w" and fget_funct7: "fget r_funct7 w = fld 31 25 w"
  by (simp_all add: layout bf_get_def fld_def)

lemmas fget_fld = fget_opcode fget_rd fget_funct3 fget_rs1 fget_rs2 fget_funct7

lemma unat_fld: "unat (fld hi lo w) < 2 ^ (Suc hi - lo)"
  by (simp only: fld_def unsigned_take_bit_eq take_bit_nat_less_exp)

lemma reg_index_less: "Suc hi - lo = 5 \<Longrightarrow> unat (ucast (fld hi lo w) :: u8) < 32"
  using unat_fld [of hi lo w] by (simp add: unsigned_ucast_eq take_bit_nat_eq_self)

lemma hart_of_simps [simp]:
  "xpc (hart_of c) = pc c"
  "unat r < 32 \<Longrightarrow> xreg (hart_of c) r = read_register (cpu c) r"
  "xmem (hart_of c) a = (if unat a < guest_limit then cells (mem c) (host_addr c a) else None)"
  "xwr (hart_of c) a = writable (mem c) (host_addr c a)"
  by (simp_all add: hart_of_def)

lemma xreg_read_reg:
  "xreg (hart_of c) (ucast (fld 19 15 w)) = read_reg c rs1 w"
  "xreg (hart_of c) (ucast (fld 24 20 w)) = read_reg c rs2 w"
  by (simp_all add: reg_index_less read_reg_def reg_field_def fget_fld)

lemma hart_of_stderr [simp]: "hart_of (c\<lparr>stderr := e\<rparr>) = hart_of c"
  and hart_of_stdout [simp]: "hart_of (c\<lparr>stdout := e\<rparr>) = hart_of c"
  and hart_of_pc: "hart_of (c\<lparr>pc := p\<rparr>) = hart_of c\<lparr>xpc := p\<rparr>"
  by (simp_all add: hart_of_def host_addr_def cong: if_cong)

lemma machine_ok_simps [simp]:
  "machine_ok (c\<lparr>stderr := e\<rparr>) = machine_ok c" "machine_ok (c\<lparr>stdout := e\<rparr>) = machine_ok c"
  "machine_ok (c\<lparr>pc := p\<rparr>) = machine_ok c" "machine_ok (c\<lparr>mem := m\<rparr>) = machine_ok c"
  by (simp_all add: machine_ok_def)

lemma set_reg_fields [simp]:
  "pc (set_reg c w v) = pc c" "mem (set_reg c w v) = mem c" "memory (set_reg c w v) = memory c"
  "stdout (set_reg c w v) = stdout c" "stderr (set_reg c w v) = stderr c"
  by (simp_all add: set_reg_def)

lemma machine_ok_set_reg [simp]: "machine_ok c \<Longrightarrow> machine_ok (set_reg c w v)"
  using regs.valid_write reg_index_less [of 11 7 w]
  by (simp add: machine_ok_def set_reg_def reg_field_def fget_fld)

lemma hart_of_set_reg:
  assumes "machine_ok c"
  shows "hart_of (set_reg c w v) = set_x (ucast (fld 11 7 w)) v (hart_of c)"
proof -
  let ?d = "ucast (fld 11 7 w) :: u8"
  have d: "unat ?d < 32" by (rule reg_index_less) simp
  have "(\<lambda>r. if unat r < 32 then read_register (write_register (cpu c) ?d v) r else 0)
    = (if ?d = 0 then (\<lambda>r. if unat r < 32 then read_register (cpu c) r else 0)
       else (\<lambda>r. if unat r < 32 then read_register (cpu c) r else 0)(?d := v))"
    using assms d regs.read_write [of "cpu c" ?d] by (auto simp: machine_ok_def fun_eq_iff)
  then show ?thesis
    by (auto simp: hart_of_def set_reg_def reg_field_def fget_fld set_x_def host_addr_def
        cong: if_cong)
qed

section \<open>Addresses\<close>

lemma u32_succ: "unat a + k < 4294967296 \<Longrightarrow> unat (a + of_nat k) = unat a + k" for a :: u32
  by (simp add: unat_word_ariths unat_of_nat take_bit_nat_eq_self)

lemma ucast_succ:
  fixes a :: u32
  assumes "unat a + k < 4294967296"
  shows "(ucast (a + of_nat k) :: u64) = ucast a + of_nat k"
proof -
  have "unat (ucast (a + of_nat k) :: u64) = unat a + k"
    using assms u32_succ [OF assms] by (simp add: unsigned_ucast_eq take_bit_nat_eq_self)
  moreover have "unat (ucast a + of_nat k :: u64) = unat a + k"
    using assms by (simp add: unat_word_ariths unat_of_nat unsigned_ucast_eq take_bit_nat_eq_self)
  ultimately show ?thesis by (simp add: word_unat_eq_iff)
qed

lemma guest_next:
  assumes "unat a < guest_limit"
  shows "host_addr c (a + 1) = host_addr c a + 1" "host_addr c (a + 2) = host_addr c a + 2"
    "host_addr c (a + 3) = host_addr c a + 3"
  using assms ucast_succ [of a 1] ucast_succ [of a 2] ucast_succ [of a 3]
  by (simp_all add: host_addr_def guest_limit_def add.assoc)

lemma host_addr_inj: "host_addr c a = host_addr c b \<longleftrightarrow> a = b"
proof
  assume "host_addr c a = host_addr c b"
  then have "unat (ucast a :: u64) = unat (ucast b :: u64)" by (simp add: host_addr_def)
  then show "a = b"
    using unat_u32_less [of a] unat_u32_less [of b]
    by (simp add: unsigned_ucast_eq take_bit_nat_eq_self word_unat_eq_iff)
qed simp

lemma mod_window:
  fixes s :: int
  assumes "s mod 4294967296 < 2147481600" "- 2147485696 \<le> s" "s < 2147485696"
  shows "s mod 4294967296 = s"
proof (cases "0 \<le> s")
  case True
  with assms(3) show ?thesis by (simp add: mod_pos_pos_trivial)
next
  case False
  then have "(s + 4294967296) mod 4294967296 = s + 4294967296"
    using assms(2) by (intro mod_pos_pos_trivial) simp_all
  then have "s mod 4294967296 = s + 4294967296" by simp
  with assms show ?thesis by simp
qed

text \<open>The two host additions are one guest addition, below the limit.\<close>

lemma scast_sum:
  fixes r i :: u32
  assumes "- 2048 \<le> sint i" "sint i < 2048" "unat (r + i) < guest_limit"
  shows "(scast r + scast i :: u64) = ucast (r + i)"
proof -
  have r: "- 2147483648 \<le> sint r" "sint r < 2147483648"
    using sint_range_size [of r] by (simp_all add: word_size)
  have "uint (r + i) = (uint r + uint i) mod 4294967296"
    by (simp add: uint_word_ariths)
  also have "\<dots> = (sint r + sint i) mod 4294967296"
    unfolding uint_sint [of r] uint_sint [of i] take_bit_eq_mod by (simp add: mod_simps)
  finally have "uint (r + i) = (sint r + sint i) mod 4294967296" .
  moreover have "unat (r + i) < 2147481600" using assms(3) by (simp add: guest_limit_def)
  then have "int (unat (r + i)) < 2147481600" by linarith
  then have "uint (r + i) < 2147481600" by simp
  ultimately have "uint (r + i) = sint r + sint i"
    using assms(1,2) r mod_window [of "sint r + sint i"] by simp
  moreover have "(ucast (r + i) :: u64) = word_of_int (uint (r + i))" by (rule ucast_eq)
  ultimately show ?thesis by (simp only: scast_eq of_int_add)
qed

lemma fget_i_imm: "sext32_imm12 (ucast (fget i_imm_11_0 w)) = imm_i w"
  using unat_fld [of 31 20 w] sext32_imm12_sext [of "fld 31 20 w"]
  by (simp add: imm_i_def layout bf_get_def fld_def)

lemma fget_s_imm:
  "sext32_imm12 (ucast (fget s_imm_4_0 w OR push_bit 5 (fget s_imm_11_5 w))) = imm_s w"
proof -
  let ?v = "fget s_imm_4_0 w OR push_bit 5 (fget s_imm_11_5 w)"
  have v: "?v = push_bit 5 (fld 31 25 w) OR fld 11 7 w"
    by (simp add: layout bf_get_def fld_def or.commute)
  have "take_bit 12 ?v = ?v"
    by (rule bit_word_eqI) (auto simp: layout bit_simps)
  then have "unat ?v < 4096"
    using take_bit_self_less [of 12 ?v] by simp
  from sext32_imm12_sext [OF this] show ?thesis unfolding v by (simp add: imm_s_def)
qed

lemma load_location_eq:
  assumes "unat (read_reg c rs1 w + imm_i w) < guest_limit"
  shows "load_location w c = host_addr c (read_reg c rs1 w + imm_i w)"
  using scast_sum [OF _ _ assms] immediate_range_i [of w]
  by (simp add: load_location_def fget_i_imm host_addr_def bit_cast_i32_def
      read_i_immediate_eq add.assoc)

lemma store_location_eq:
  assumes "unat (read_reg c rs1 w + imm_s w) < guest_limit"
  shows "store_location w c = host_addr c (read_reg c rs1 w + imm_s w)"
  using scast_sum [OF _ _ assms] immediate_range_s [of w]
  by (simp add: store_location_def fget_s_imm host_addr_def bit_cast_i32_def
      read_s_immediate_eq add.assoc add.commute add.left_commute)

section \<open>Fetching\<close>

lemma host_addr_mod4:
  assumes "memory c AND 3 = 0" shows "unat (host_addr c a) mod 4 = unat a mod 4"
proof -
  have "unat (host_addr c a) = (unat (memory c) + unat a) mod 18446744073709551616"
    using unat_u32_less [of a]
    by (simp add: host_addr_def unat_word_ariths unsigned_ucast_eq take_bit_nat_eq_self)
  then have "unat (host_addr c a) mod 4 = (unat (memory c) + unat a) mod 4"
    by (simp add: mod_mod_cancel)
  moreover have "unat (memory c) mod 4 = 0" using assms and_3_zero [of "memory c"] by simp
  ultimately show ?thesis by (metis add_0 mod_add_left_eq)
qed

lemma insn_ptr_host_addr: "insn_ptr c = host_addr c (pc c)"
  by (simp add: insn_ptr_def host_addr_def)

lemma guest_read_Suc:
  "guest_read m a (Suc n) = Inr bs \<longleftrightarrow>
     (\<exists>b bs'. bs = b # bs' \<and> m a = Some b \<and> guest_read m (a + 1) n = Inr bs')"
  by (auto split: option.splits sum.splits)

lemma guest_read_4:
  "guest_read m a 4 = Inr bs \<longleftrightarrow>
     (\<exists>b0 b1 b2 b3. bs = [b0, b1, b2, b3] \<and> m a = Some b0 \<and> m (a + 1) = Some b1
        \<and> m (a + 2) = Some b2 \<and> m (a + 3) = Some b3)"
  by (auto simp: eval_nat_numeral guest_read_Suc add.assoc simp del: guest_read.simps(2))

lemma fetch_hart_of:
  assumes "machine_ok c" "fetch (hart_of c) = Inr w"
  shows "insn_ptr c AND 3 = 0" "load_u32 (mem c) (insn_ptr c) = Inr w"
proof -
  from assms(2) have al: "pc c AND 3 = 0" by (simp add: fetch_def split: if_splits)
  then show "insn_ptr c AND 3 = 0"
    using assms(1) host_addr_mod4 [of c "pc c"] and_3_zero [of "insn_ptr c"] and_3_zero [of "pc c"]
    by (simp add: machine_ok_def insn_ptr_host_addr)
  from assms(2) al obtain b0 b1 b2 b3 where
    w: "w = of_le [b0, b1, b2, b3]" and
    b: "xmem (hart_of c) (pc c) = Some b0" "xmem (hart_of c) (pc c + 1) = Some b1"
       "xmem (hart_of c) (pc c + 2) = Some b2" "xmem (hart_of c) (pc c + 3) = Some b3"
    by (auto simp: fetch_def guest_read_4 simp del: hart_of_simps(3) of_le.simps
        split: sum.splits)
  then show "load_u32 (mem c) (insn_ptr c) = Inr w"
    by (auto simp: load_u32_def load_u8_def insn_ptr_host_addr guest_next of_le_four
        split: if_splits simp del: of_le.simps)
qed

section \<open>Executing\<close>

text \<open>A handler leaves the state that the loop footer turns into the hart \<open>h\<close>.\<close>

definition steps_to :: "machine result \<Rightarrow> hart \<Rightarrow> bool" where
  "steps_to r h \<longleftrightarrow>
     (\<exists>c'. r = Inr c' \<and> machine_ok c' \<and> hart_of (c'\<lparr>pc := pc c' + 4\<rparr>) = h)"

lemma xpc_set_x [simp]: "xpc (set_x d v h) = xpc h"
  by (simp add: set_x_def)

lemma set_x_xpc: "(set_x d v h)\<lparr>xpc := p\<rparr> = set_x d v (h\<lparr>xpc := p\<rparr>)"
  by (simp add: set_x_def)

lemma steps_to_set_reg:
  assumes "machine_ok c"
  shows "steps_to (Inr (set_reg c w v)) (next_pc (set_x (ucast (fld 11 7 w)) v (hart_of c)))"
  using assms by (simp add: steps_to_def hart_of_pc hart_of_set_reg next_pc_def)

lemma steps_to_skip: "machine_ok c \<Longrightarrow> steps_to (Inr c) (next_pc (hart_of c))"
  by (simp add: steps_to_def hart_of_pc next_pc_def)

lemma steps_to_jump:
  assumes "machine_ok c" "jump_to t (set_x (ucast (fld 11 7 w)) v (hart_of c)) = Inr h'"
  shows "steps_to (Inr (set_reg c w v\<lparr>pc := t - 4\<rparr>)) h'"
  using assms
  by (auto simp: steps_to_def jump_to_def hart_of_pc hart_of_set_reg split: if_splits)

lemma exec_jal_refines:
  assumes "machine_ok c" "hart_exec (Jal (ucast (fld 11 7 w)) (imm_j w)) (hart_of c) = Inr h'"
  shows "steps_to (exec_jal w c) h'"
  using assms steps_to_jump [of c "pc c + imm_j w" w "pc c + 4" h']
  by (simp add: exec_jal_def read_j_immediate_eq)

lemma exec_jalr_refines:
  assumes "machine_ok c"
    "hart_exec (Jalr (ucast (fld 11 7 w)) (ucast (fld 19 15 w)) (imm_i w)) (hart_of c) = Inr h'"
  shows "steps_to (exec_jalr w c) h'"
  using assms steps_to_jump [of c "(imm_i w + read_reg c rs1 w) AND NOT 1" w "pc c + 4" h']
  by (simp add: exec_jalr_def read_i_immediate_eq xreg_read_reg add.commute)

lemma branch_func_of_cond:
  "cond_of f3 = Some k \<Longrightarrow> branch_func_of f3 =
     Some (case k of Beq \<Rightarrow> branch_func_beq | Bne \<Rightarrow> branch_func_bne | Blt \<Rightarrow> branch_func_blt
           | Bge \<Rightarrow> branch_func_bge | Bltu \<Rightarrow> branch_func_bltu | Bgeu \<Rightarrow> branch_func_bgeu)"
  by (auto simp: cond_of_def branch_func_of_def enum_of_def split: if_splits)

lemma exec_branch_refines:
  assumes ok: "machine_ok c" and k: "cond_of (fld 14 12 w) = Some k" "k \<in> {Beq, Bne, Bltu, Bgeu}"
    and h': "hart_exec (Branch k (ucast (fld 19 15 w)) (ucast (fld 24 20 w)) (imm_b w)) (hart_of c)
      = Inr h'"
  shows "steps_to (exec_branch nd w c) h'"
proof -
  let ?taken = "c\<lparr>pc := pc c + (imm_b w - 4)\<rparr>"
  have taken: "steps_to (Inr ?taken) h'" if "jump_to (pc c + imm_b w) (hart_of c) = Inr h'"
    using that ok by (auto simp: steps_to_def jump_to_def hart_of_pc split: if_splits)
  show ?thesis
    using k(2) h' taken steps_to_skip [OF ok]
    by (auto simp: exec_branch_def Let_def fget_fld branch_func_of_cond [OF k(1)] xreg_read_reg
        bit_cast_i32_def read_b_immediate_eq split: if_splits)
qed

section \<open>Loads and stores\<close>

lemma exec_load_refines:
  assumes ok: "machine_ok c" and k: "load_of (fld 14 12 w) = Some Lbu"
    and h': "hart_exec (Load Lbu (ucast (fld 11 7 w)) (ucast (fld 19 15 w)) (imm_i w)) (hart_of c)
      = Inr h'"
  shows "steps_to (exec_load nd w c) h'"
proof -
  let ?a = "read_reg c rs1 w + imm_i w"
  from h' obtain b where b: "xmem (hart_of c) ?a = Some b"
    and h: "h' = next_pc (set_x (ucast (fld 11 7 w)) (ucast b) (hart_of c))"
    by (auto simp: xreg_read_reg simp del: hart_of_simps(3) split: option.splits sum.splits)
  have lim: "unat ?a < guest_limit" and cell: "cells (mem c) (host_addr c ?a) = Some b"
    using b by (auto split: if_splits)
  have "fget funct3 w = 4" using k by (auto simp: load_of_def fget_fld split: if_splits)
  then have "exec_load nd w c = Inr (set_reg c w (ucast b))"
    by (simp add: exec_load_def load_func_of_def enum_of_def load_location_eq [OF lim]
        load_u8_def cell)
  then show ?thesis using steps_to_set_reg [OF ok] h by simp
qed

lemma host_addr_mem [simp]: "host_addr (c\<lparr>mem := m\<rparr>) a = host_addr c a"
  by (simp add: host_addr_def)

lemma store_byte_refines:
  assumes "xmem (hart_of c) a \<noteq> None" "xwr (hart_of c) a"
  obtains m where "store_u8 (mem c) (host_addr c a) b = Inr m"
    "hart_of (c\<lparr>mem := m\<rparr>) = hart_of c\<lparr>xmem := (xmem (hart_of c))(a := Some b)\<rparr>"
proof
  let ?m = "mem c\<lparr>cells := (cells (mem c))(host_addr c a := Some b)\<rparr>"
  from assms(1) have lim: "unat a < guest_limit" "cells (mem c) (host_addr c a) \<noteq> None"
    by (auto split: if_splits)
  then show "store_u8 (mem c) (host_addr c a) b = Inr ?m"
    using assms(2) by (simp add: store_u8_def)
  have "(\<lambda>x. if unat x < guest_limit
            then ((cells (mem c))(host_addr c a := Some b)) (host_addr c x) else None)
      = (\<lambda>x. if unat x < guest_limit then cells (mem c) (host_addr c x) else None)(a := Some b)"
    using lim by (auto simp: fun_eq_iff host_addr_inj)
  then show "hart_of (c\<lparr>mem := ?m\<rparr>) = hart_of c\<lparr>xmem := (xmem (hart_of c))(a := Some b)\<rparr>"
    by (simp add: hart_of_def cong: if_cong)
qed

lemma guest_write_Cons:
  assumes "guest_write a (b # bs) (hart_of c) = Inr h"
  obtains m where "store_u8 (mem c) (host_addr c a) b = Inr m" "unat a < guest_limit"
    "guest_write (a + 1) bs (hart_of (c\<lparr>mem := m\<rparr>)) = Inr h"
proof -
  from assms have r: "xmem (hart_of c) a \<noteq> None" "xwr (hart_of c) a"
    and g: "guest_write (a + 1) bs (hart_of c\<lparr>xmem := (xmem (hart_of c))(a := Some b)\<rparr>) = Inr h"
    by (auto simp del: hart_of_simps split: if_splits)
  from r(1) have "unat a < guest_limit" by (auto split: if_splits)
  with store_byte_refines [OF r, of b] g that show thesis by metis
qed

lemma store_u32_refines:
  assumes "guest_write a (le32 v) (hart_of c) = Inr h"
  obtains m where "store_u32 (mem c) (host_addr c a) v = Inr m" "hart_of (c\<lparr>mem := m\<rparr>) = h"
proof -
  from assms obtain m0 where 0: "store_u8 (mem c) (host_addr c a) (ucast v) = Inr m0"
    "unat a < guest_limit" "guest_write (a + 1)
       [ucast (drop_bit 8 v), ucast (drop_bit 16 v), ucast (drop_bit 24 v)]
       (hart_of (c\<lparr>mem := m0\<rparr>)) = Inr h"
    unfolding le32_def by (rule guest_write_Cons)
  obtain m1 where 1: "store_u8 m0 (host_addr c (a + 1)) (ucast (drop_bit 8 v)) = Inr m1"
    "guest_write (a + 2) [ucast (drop_bit 16 v), ucast (drop_bit 24 v)]
       (hart_of (c\<lparr>mem := m1\<rparr>)) = Inr h"
    by (rule guest_write_Cons [OF 0(3)]) (auto simp: add.assoc simp del: guest_write.simps)
  obtain m2 where 2: "store_u8 m1 (host_addr c (a + 2)) (ucast (drop_bit 16 v)) = Inr m2"
    "guest_write (a + 3) [ucast (drop_bit 24 v)] (hart_of (c\<lparr>mem := m2\<rparr>)) = Inr h"
    by (rule guest_write_Cons [OF 1(2)]) (auto simp: add.assoc simp del: guest_write.simps)
  obtain m3 where 3: "store_u8 m2 (host_addr c (a + 3)) (ucast (drop_bit 24 v)) = Inr m3"
    "hart_of (c\<lparr>mem := m3\<rparr>) = h"
    by (rule guest_write_Cons [OF 2(2)]) simp
  show thesis
    using that [of m3] 0 1(1) 2(1) 3 by (simp add: store_u32_def guest_next)
qed

lemma exec_store_refines:
  assumes ok: "machine_ok c" and k: "store_of (fld 14 12 w) = Some k" "k \<in> {Sb, Sw}"
    and h': "hart_exec (Store k (ucast (fld 19 15 w)) (ucast (fld 24 20 w)) (imm_s w)) (hart_of c)
      = Inr h'"
  shows "steps_to (exec_store nd w c) h'"
proof -
  let ?a = "read_reg c rs1 w + imm_s w" and ?bs = "store_bytes k (read_reg c rs2 w)"
  from h' obtain h where g: "guest_write ?a ?bs (hart_of c) = Inr h" and h: "h' = next_pc h"
    and al: "unat ?a mod length ?bs = 0"
    by (auto simp: xreg_read_reg Let_def simp del: guest_write.simps split: sum.splits if_splits)
  have lim: "unat ?a < guest_limit"
    using g k(2) by (auto simp: le32_def elim: guest_write_Cons simp del: guest_write.simps)
  note loc = store_location_eq [OF lim]
  have fin: "steps_to (Inr (c\<lparr>mem := m\<rparr>)) h'" if "hart_of (c\<lparr>mem := m\<rparr>) = h" for m
    using that ok h by (auto simp: steps_to_def hart_of_pc next_pc_def)
  from k(2) consider "k = Sb" | "k = Sw" by blast
  then show ?thesis
  proof cases
    case 1
    then have f3: "fget funct3 w = 0" using k(1) by (auto simp: store_of_def fget_fld split: if_splits)
    from g 1 obtain m where "store_u8 (mem c) (host_addr c ?a) (ucast (read_reg c rs2 w)) = Inr m"
      "hart_of (c\<lparr>mem := m\<rparr>) = h"
      by (auto elim: guest_write_Cons simp del: guest_write.simps(2))
    then show ?thesis
      using fin by (simp add: exec_store_def store_func_of_def enum_of_def f3 loc)
  next
    case 2
    then have f3: "fget funct3 w = 2" using k(1) by (auto simp: store_of_def fget_fld split: if_splits)
    from 2 g obtain m where "store_u32 (mem c) (host_addr c ?a) (read_reg c rs2 w) = Inr m"
      "hart_of (c\<lparr>mem := m\<rparr>) = h"
      by (auto elim: store_u32_refines)
    moreover have "unat (host_addr c ?a) mod 4 = 0"
      using al 2 ok host_addr_mod4 [of c ?a] by (simp add: machine_ok_def)
    ultimately show ?thesis
      using fin by (simp add: exec_store_def store_func_of_def enum_of_def f3 loc)
  qed
qed

section \<open>Arithmetic\<close>

lemma exec_op_refines:
  assumes ok: "machine_ok c" and k: "alu_of (fld 14 12 w) (fld 31 25 w) = Some k"
    "k \<in> {Add, Sub, Or}"
  shows "steps_to (exec_op nd w c) (next_pc (set_x (ucast (fld 11 7 w))
    (alu k (read_reg c rs1 w) (read_reg c rs2 w)) (hart_of c)))"
proof -
  have rd: "read_reg (c\<lparr>stdout := x\<rparr>) f w = read_reg c f w" for x f by (simp add: read_reg_def)
  have ok': "machine_ok (c\<lparr>stdout := x\<rparr>)" for x using ok by simp
  show ?thesis
    using k steps_to_set_reg [OF ok, of w] steps_to_set_reg [OF ok', where w = w]
    by (auto simp: exec_op_def Let_def alu_of_def op_funct3_of_def enum_of_def fget_fld
        split: if_splits)
qed

lemma opi_cases:
  assumes "opi_of f3 f7 = Some k"
  obtains (add) "k = Add" "imm_func_of f3 = Some imm_func_addi"
  | (slt) "k = Slt" "imm_func_of f3 = Some imm_func_slti"
  | (sltu) "k = Sltu" "imm_func_of f3 = Some imm_func_sltiu"
  | (xor) "k = Xor" "imm_func_of f3 = Some imm_func_xori"
  | (or) "k = Or" "imm_func_of f3 = Some imm_func_ori"
  | (and_) "k = And" "imm_func_of f3 = Some imm_func_andi"
  | (sll) "k = Sll" "imm_func_of f3 = Some imm_func_slli" "f7 = 0"
  | (srl) "k = Srl" "imm_func_of f3 = Some imm_func_srli" "f7 = 0"
  | (sra) "k = Sra" "imm_func_of f3 = Some imm_func_srli" "f7 = 32"
  using assms that by (auto simp: opi_of_def imm_func_of_cases split: if_splits)

text \<open>With bit 31 of the instruction clear, both right shifts are the logical one.\<close>

lemma take_bit_fld_shamt: "take_bit 5 (fld 24 20 w) = fld 24 20 w"
  by (simp add: fld_def)

lemma read_shift_eq: "read_shift_immediate w = fld 24 20 w"
proof -
  have "(0x1f :: u32) = mask 5" by (simp add: mask_eq_exp_minus_1)
  then have "read_shift_immediate w = take_bit 5 (read_i_immediate w)"
    by (simp add: read_shift_immediate_def take_bit_eq_mask)
  then show ?thesis by (intro bit_word_eqI) (auto simp: bits bit_simps)
qed

lemma shift_right_imm_logical:
  assumes "\<not> bit w 31"
  shows "shift_right_imm w src = drop_bit (unat (fld 24 20 w)) src"
proof -
  have "\<not> bit (read_i_immediate w) 12" using assms by (simp add: bits)
  moreover have "unat (ucast (read_shift_immediate w) :: u8) = unat (fld 24 20 w)"
    using unat_fld [of 24 20 w] by (simp add: read_shift_eq unsigned_ucast_eq take_bit_nat_eq_self)
  ultimately show ?thesis by (simp add: shift_right_imm_def Let_def)
qed

lemma fld_31_25_bit: "fld 31 25 w \<in> {0, 32} \<Longrightarrow> \<not> bit w 31"
proof -
  assume "fld 31 25 w \<in> {0, 32}"
  then have "\<not> bit (fld 31 25 w) 6" by auto
  then show ?thesis by (simp add: bits)
qed

lemma exec_imm_refines:
  assumes ok: "machine_ok c" and k: "opi_of (fld 14 12 w) (fld 31 25 w) = Some k"
    and e: "emulated nd (Opi k (ucast (fld 11 7 w)) (ucast (fld 19 15 w)) (opi_operand k w)) (hart_of c)"
  shows "steps_to (exec_imm w c) (next_pc (set_x (ucast (fld 11 7 w))
    (alu k (read_reg c rs1 w) (opi_operand k w)) (hart_of c)))"
  using k
proof (cases rule: opi_cases)
  case srl
  then have "\<not> bit w 31" using fld_31_25_bit by simp
  with srl show ?thesis
    using steps_to_set_reg [OF ok, of w]
    by (simp add: exec_imm_def fget_fld shift_right_imm_logical opi_operand_def take_bit_fld_shamt)
next
  case sra
  with e show ?thesis by simp
qed (use e steps_to_set_reg [OF ok, of w] in
    \<open>simp_all add: exec_imm_def fget_fld opi_operand_def take_bit_fld_shamt add_i32_def
      bit_cast_i32_def read_i_immediate_eq read_shift_eq xreg_read_reg Let_def\<close>)

section \<open>One step\<close>

lemma op_of_fld:
  "op_of (fget opcode w) = Some a \<longleftrightarrow> fld 6 0 w = op_code a"
  by (simp add: op_of_Some_iff fget_fld)

text \<open>What decoding an instruction says about its opcode and function fields.\<close>

lemma decode_cases:
  assumes "decode w = Some i"
  obtains
    (lui) "op_of (fget opcode w) = Some op_lui" "i = Lui (ucast (fld 11 7 w)) (imm_u w)"
  | (auipc) "op_of (fget opcode w) = Some op_auipc" "i = Auipc (ucast (fld 11 7 w)) (imm_u w)"
  | (jal) "op_of (fget opcode w) = Some op_jal" "i = Jal (ucast (fld 11 7 w)) (imm_j w)"
  | (jalr) "op_of (fget opcode w) = Some op_jalr"
      "i = Jalr (ucast (fld 11 7 w)) (ucast (fld 19 15 w)) (imm_i w)"
  | (branch) k where "op_of (fget opcode w) = Some op_branch" "cond_of (fld 14 12 w) = Some k"
      "i = Branch k (ucast (fld 19 15 w)) (ucast (fld 24 20 w)) (imm_b w)"
  | (load) k where "op_of (fget opcode w) = Some op_load" "load_of (fld 14 12 w) = Some k"
      "i = Load k (ucast (fld 11 7 w)) (ucast (fld 19 15 w)) (imm_i w)"
  | (store) k where "op_of (fget opcode w) = Some op_store" "store_of (fld 14 12 w) = Some k"
      "i = Store k (ucast (fld 19 15 w)) (ucast (fld 24 20 w)) (imm_s w)"
  | (opi) k where "op_of (fget opcode w) = Some op_imm" "opi_of (fld 14 12 w) (fld 31 25 w) = Some k"
      "i = Opi k (ucast (fld 11 7 w)) (ucast (fld 19 15 w)) (opi_operand k w)"
  | (op) k where "op_of (fget opcode w) = Some op_op" "alu_of (fld 14 12 w) (fld 31 25 w) = Some k"
      "i = Op k (ucast (fld 11 7 w)) (ucast (fld 19 15 w)) (ucast (fld 24 20 w))"
  | (other) "i \<in> {Fence, Ecall, Ebreak}"
  using assms that unfolding decode_def Let_def op_of_fld by (simp split: if_splits) blast+

lemma dasm_prints:
  assumes "decode w = Some i" "emulated nd i h"
  obtains t where "dasm nd w off = Inr t"
proof -
  have "\<not> (\<exists>e. dasm nd w off = Inl e)"
    using assms(1)
  proof (cases rule: decode_cases)
    case opi
    then show ?thesis
      using assms(2) unfolding dasm_stops
      by (auto simp: opi_of_def fget_fld split: if_splits)
  qed (use assms(2) in \<open>auto simp: dasm_stops fget_fld cond_of_def load_of_def
         store_of_def split: if_splits\<close>)
  then show thesis using that by (metis sum.exhaust)
qed

lemma execute_refines:
  assumes ok: "machine_ok c" and d: "decode w = Some i" and e: "emulated nd i (hart_of c)"
    and h': "hart_exec i (hart_of c) = Inr h'"
  shows "steps_to (execute nd w c) h'"
  using d
proof (cases rule: decode_cases)
  case lui
  then show ?thesis
    using h' steps_to_set_reg [OF ok, of w "imm_u w"]
    by (simp add: execute_def exec_lui_def read_upper_immediate_eq)
next
  case auipc
  then show ?thesis
    using h' steps_to_set_reg [OF ok, of w "pc c + imm_u w"]
    by (simp add: execute_def exec_auipc_def read_upper_immediate_eq)
next
  case jal
  with h' have "steps_to (exec_jal w c) h'" by (intro exec_jal_refines [OF ok]) simp_all
  with jal show ?thesis by (simp add: execute_def)
next
  case jalr
  with h' have "steps_to (exec_jalr w c) h'" by (intro exec_jalr_refines [OF ok]) simp_all
  with jalr show ?thesis by (simp add: execute_def)
next
  case (branch k)
  with e have "k \<in> {Beq, Bne, Bltu, Bgeu}" by simp
  from exec_branch_refines [OF ok branch(2) this] h' branch(3)
  have "steps_to (exec_branch nd w c) h'" by (simp del: hart_exec.simps)
  with branch show ?thesis by (simp add: execute_def)
next
  case (load k)
  with e have k: "k = Lbu" by simp
  from exec_load_refines [OF ok load(2) [unfolded k]] h' load(3)
  have "steps_to (exec_load nd w c) h'" by (simp add: k del: hart_exec.simps)
  with load show ?thesis by (simp add: execute_def)
next
  case (store k)
  with e have "k \<in> {Sb, Sw}" by simp
  from exec_store_refines [OF ok store(2) this] h' store(3)
  have "steps_to (exec_store nd w c) h'" by (simp del: hart_exec.simps)
  with store show ?thesis by (simp add: execute_def)
next
  case (opi k)
  then show ?thesis
    using h' e exec_imm_refines [OF ok opi(2)]
    by (simp add: execute_def xreg_read_reg)
next
  case (op k)
  then show ?thesis
    using h' e exec_op_refines [OF ok op(2)]
    by (simp add: execute_def xreg_read_reg)
next
  case other
  then show ?thesis using e by auto
qed

lemma decode_zero: "decode 0 = None"
  by (simp add: decode_def fld_def)

lemma step_refines:
  assumes ok: "machine_ok c" and f: "fetch (hart_of c) = Inr w" and d: "decode w = Some i"
    and e: "emulated nd i (hart_of c)" and h': "hart_exec i (hart_of c) = Inr h'"
  obtains c' where "step nd c = Inr c'" "hart_of c' = h'" "machine_ok c'"
proof -
  obtain t where t: "dasm nd w (pc c) = Inr t" using dasm_prints [OF d e] .
  let ?c = "c\<lparr>stderr := stderr c @ log_insn (pc c) w @ t @ newline\<rparr>"
  have nz: "w \<noteq> 0" using d decode_zero by auto
  have "steps_to (execute nd w ?c) h'"
    using execute_refines [of ?c w i nd h'] ok d e h' by simp
  then obtain c1 where c1: "execute nd w ?c = Inr c1" "machine_ok c1"
      "hart_of (c1\<lparr>pc := pc c1 + 4\<rparr>) = h'"
    by (auto simp: steps_to_def)
  have "step nd c = Inr (c1\<lparr>pc := pc c1 + 4\<rparr>)"
    using fetch_hart_of [OF ok f] t nz c1(1) by (simp add: step_def Let_def)
  with c1 that show thesis by simp
qed

section \<open>The emulator implements the instruction set\<close>

text \<open>
  Property C4. For every instruction the emulator supports, its step is the step of the
  RV32I specification: whenever the hart fetches and decodes such an instruction and the
  specification executes it, the emulator's step succeeds and leaves exactly the registers,
  the pc and the memory the specification prescribes.
\<close>

theorem emulator_implements_isa:
  assumes "machine_ok c" "fetch (hart_of c) = Inr w" "decode w = Some i"
    "emulated nd i (hart_of c)" "hart_exec i (hart_of c) = Inr h'"
  shows "\<exists>c'. step nd c = Inr c' \<and> hart_of c' = h' \<and> machine_ok c'"
  using step_refines [OF assms] by blast

text \<open>
  Concrete states for the witnesses: one page of memory filled with an instruction word,
  and the pc at its start.
\<close>

definition demo_mem :: "u32 \<Rightarrow> host_mem" where
  "demo_mem w =
     \<lparr>cells = (\<lambda>a. if unat a < 4096 then Some (le32 w ! (unat a mod 4)) else None),
      writable = (\<lambda>a. False)\<rparr>"

definition demo :: "u32 \<Rightarrow> machine" where
  "demo w = start_machine 0 (demo_mem w) 0"

lemma demo_ok: "machine_ok (demo w)" "insn_ptr (demo w) AND 3 = 0" "cpu_ok (cpu (demo w))"
  by (simp_all add: machine_ok_def demo_def start_machine_def cpu_ok_def zero_cpu_def insn_ptr_def)

lemma demo_load: "load_u32 (mem (demo w)) (insn_ptr (demo w)) = Inr w"
  by (simp add: demo_def start_machine_def demo_mem_def insn_ptr_def load_u32_def load_u8_def le32_def)

lemma demo_fetch: "fetch (hart_of (demo w)) = Inr w"
proof -
  have "guest_read (xmem (hart_of (demo w))) 0 4 = Inr (le32 w)"
    unfolding guest_read_4
    by (simp add: demo_def start_machine_def demo_mem_def guest_limit_def host_addr_def le32_def)
  then show ?thesis
    by (simp add: fetch_def of_le_four le32_def demo_def start_machine_def del: of_le.simps)
qed

text \<open>\<open>addi a0, zero, 5\<close>.\<close>

lemma demo_addi:
  "decode 0x00500513 = Some (Opi Add 10 0 5)"
  "emulated False (Opi Add 10 0 5) (hart_of (demo w))"
  "hart_exec (Opi Add 10 0 5) (hart_of (demo w)) = Inr (next_pc (set_x 10 5 (hart_of (demo w))))"
  by (simp_all add: demo_def start_machine_def decode_def fld_def opi_of_def opi_operand_def
      imm_i_def sext_def read_register_def)

theorem emulator_implements_isa_witness:
  "\<exists>c'. step False (demo 0x00500513) = Inr c'
    \<and> hart_of c' = next_pc (set_x 10 5 (hart_of (demo 0x00500513))) \<and> machine_ok c'"
  by (rule emulator_implements_isa [OF demo_ok(1) demo_fetch demo_addi])

text \<open>The specification restricted to what the emulator supports.\<close>

definition emulated_step :: "bool \<Rightarrow> hart \<Rightarrow> hart_stop + hart" where
  "emulated_step nd h =
     (case fetch h of
        Inl e \<Rightarrow> Inl e
      | Inr w \<Rightarrow> (case decode w of
                   None \<Rightarrow> Inl Illegal
                 | Some i \<Rightarrow> if emulated nd i h then hart_exec i h else Inl Environment))"

interpretation isa: lockstep "emulated_step nd" "step nd" "\<lambda>h c. machine_ok c \<and> hart_of c = h"
  for nd
proof
  fix h c h'
  assume rel: "machine_ok c \<and> hart_of c = h" and s: "emulated_step nd h = Inr h'"
  from s obtain w i where "fetch h = Inr w" "decode w = Some i" "emulated nd i h"
    "hart_exec i h = Inr h'"
    by (auto simp: emulated_step_def split: sum.splits option.splits if_splits)
  then show "\<exists>c'. step nd c = Inr c' \<and> machine_ok c' \<and> hart_of c' = h'"
    using step_refines [of c w i nd h'] rel by blast
qed

text \<open>
  Property C5. Whole runs agree: if the specification takes \<open>n\<close> steps over supported
  instructions, the emulator takes \<open>n\<close> steps to a state that represents the same hart.
\<close>

theorem emulator_runs_agree:
  assumes "machine_ok c" "iter (emulated_step nd) n (hart_of c) = Some h'"
  shows "\<exists>c'. iter (step nd) n c = Some c' \<and> hart_of c' = h' \<and> machine_ok c'"
  using isa.lock_iter [OF assms(2)] assms(1) by auto

theorem emulator_runs_agree_witness:
  "\<exists>c'. iter (step False) (Suc 0) (demo 0x00500513) = Some c'
    \<and> hart_of c' = next_pc (set_x 10 5 (hart_of (demo 0x00500513))) \<and> machine_ok c'"
proof (rule emulator_runs_agree [OF demo_ok(1)])
  show "iter (emulated_step False) (Suc 0) (hart_of (demo 0x00500513))
    = Some (next_pc (set_x 10 5 (hart_of (demo 0x00500513))))"
    using demo_addi(2,3) [of "0x00500513"]
    by (simp add: emulated_step_def demo_fetch demo_addi(1) del: emulated.simps hart_exec.simps)
qed

end
