(* ===== verification/Interp_Safety.thy ===== *)
theory Interp_Safety
  imports Refinement
begin

text \<open>
  What holds of the interpreter on every instruction word, supported or not: it never maps
  or unmaps memory, never changes a byte it may not write, and keeps the register file in
  shape; and what the instructions outside the supported set do.
\<close>

section \<open>What no step changes\<close>

definition same_map :: "machine \<Rightarrow> machine \<Rightarrow> bool" where
  "same_map c c' \<longleftrightarrow>
     memory c' = memory c \<and> writable (mem c') = writable (mem c)
     \<and> (\<forall>a. (cells (mem c') a = None) = (cells (mem c) a = None))
     \<and> (\<forall>a. writable (mem c) a \<or> cells (mem c') a = cells (mem c) a)
     \<and> (cpu_ok (cpu c) \<longrightarrow> cpu_ok (cpu c'))"

lemma same_map_refl [simp, intro]: "same_map c c"
  by (simp add: same_map_def)

lemma same_map_trans: "same_map a b \<Longrightarrow> same_map b c \<Longrightarrow> same_map a c"
  unfolding same_map_def by metis

lemma same_map_fields [simp]:
  "same_map c (c'\<lparr>pc := p\<rparr>) = same_map c c'" "same_map (c\<lparr>stderr := e\<rparr>) c' = same_map c c'"
  "same_map c (c'\<lparr>stderr := e\<rparr>) = same_map c c'" "same_map (c\<lparr>stdout := e\<rparr>) c' = same_map c c'"
  "same_map c (c'\<lparr>stdout := e\<rparr>) = same_map c c'"
  by (simp_all add: same_map_def)

lemma same_map_set_reg [simp]: "same_map c (set_reg c w v)"
  using regs.valid_write [of "cpu c" "reg_field rd w" v] reg_index_less [of 11 7 w]
  by (simp add: same_map_def) (simp add: set_reg_def reg_field_def fget_fld)

lemma same_map_set_reg_stdout [simp]: "same_map c (set_reg (c\<lparr>stdout := x\<rparr>) w v)"
  by (metis same_map_fields(4) same_map_set_reg)

lemma same_map_store_u8: "store_u8 (mem c) a b = Inr m \<Longrightarrow> same_map c (c\<lparr>mem := m\<rparr>)"
  by (auto simp: same_map_def store_u8_def split: if_splits)

lemma same_map_store_u32:
  assumes "store_u32 (mem c) a v = Inr m" shows "same_map c (c\<lparr>mem := m\<rparr>)"
proof -
  from assms obtain m1 m2 m3 where
    s: "store_u8 (mem c) a (ucast v) = Inr m1"
       "store_u8 (mem (c\<lparr>mem := m1\<rparr>)) (a + 1) (ucast (drop_bit 8 v)) = Inr m2"
       "store_u8 (mem (c\<lparr>mem := m2\<rparr>)) (a + 2) (ucast (drop_bit 16 v)) = Inr m3"
       "store_u8 (mem (c\<lparr>mem := m3\<rparr>)) (a + 3) (ucast (drop_bit 24 v)) = Inr m"
    by (auto simp: store_u32_def bind_r_Inr_iff)
  have "same_map c (c\<lparr>mem := m1\<rparr>)" "same_map (c\<lparr>mem := m1\<rparr>) (c\<lparr>mem := m2\<rparr>)"
    "same_map (c\<lparr>mem := m2\<rparr>) (c\<lparr>mem := m3\<rparr>)" "same_map (c\<lparr>mem := m3\<rparr>) (c\<lparr>mem := m\<rparr>)"
    using s [THEN same_map_store_u8] by simp_all
  then show ?thesis by (meson same_map_trans)
qed

lemma assert_false_Inr: "assert_false nd msg x = Inr y \<Longrightarrow> y = x"
  by (cases nd) auto

lemmas exec_defs =
  exec_jalr_def exec_jal_def exec_lui_def exec_auipc_def exec_imm_def exec_load_def
  exec_store_def exec_branch_def exec_op_def

lemma exec_imm_same_map: "exec_imm w c = Inr c' \<Longrightarrow> same_map c c'"
  by (auto simp: exec_imm_def Let_def bind_r_Inr_iff split: option.splits insn_imm_func.splits)

lemma exec_load_same_map: "exec_load nd w c = Inr c' \<Longrightarrow> same_map c c'"
  by (auto simp: exec_load_def bind_r_Inr_iff dest!: assert_false_Inr
      split: option.splits insn_load_func.splits)

lemma exec_store_same_map: "exec_store nd w c = Inr c' \<Longrightarrow> same_map c c'"
  by (auto simp: exec_store_def Let_def bind_r_Inr_iff dest!: assert_false_Inr
      split: option.splits insn_store_func.splits if_splits
      intro: same_map_store_u8 same_map_store_u32)

lemma exec_branch_same_map: "exec_branch nd w c = Inr c' \<Longrightarrow> same_map c c'"
  by (auto simp: exec_branch_def Let_def dest!: assert_false_Inr
      split: option.splits insn_branch_func.splits if_splits)

lemma exec_op_same_map: "exec_op nd w c = Inr c' \<Longrightarrow> same_map c c'"
  by (auto simp: exec_op_def Let_def dest!: assert_false_Inr
      split: option.splits insn_op_funct3.splits)

lemma execute_same_map: "execute nd w c = Inr c' \<Longrightarrow> same_map c c'"
  by (auto simp: execute_def exec_jalr_def exec_jal_def exec_lui_def exec_auipc_def Let_def
      dest!: assert_false_Inr exec_imm_same_map exec_load_same_map exec_store_same_map
        exec_branch_same_map exec_op_same_map
      split: option.splits insn_op.splits)

lemma step_same_map: "step nd c = Inr c' \<Longrightarrow> same_map c c'"
  by (auto simp: step_def Let_def bind_r_Inr_iff dest!: execute_same_map split: if_splits)

interpretation map_kept: step_invariant "step nd" "same_map c0" for nd c0
  by unfold_locales (blast intro: same_map_trans step_same_map)

section \<open>Instructions outside the supported set\<close>

lemma step_exec:
  assumes "insn_ptr c AND 3 = 0" "load_u32 (mem c) (insn_ptr c) = Inr w"
    "dasm nd w (pc c) = Inr t" "w \<noteq> 0"
  shows "step nd c = bind_r (execute nd w (c\<lparr>stderr := stderr c @ log_insn (pc c) w @ t @ newline\<rparr>))
           (\<lambda>s. Inr (s\<lparr>pc := pc s + 4\<rparr>))"
  using assms by (simp add: step_def Let_def)

lemma step_dasm_stops:
  assumes "insn_ptr c AND 3 = 0" "load_u32 (mem c) (insn_ptr c) = Inr w" "dasm nd w (pc c) = Inl h"
  shows "step nd c = Inl h"
  using assms by (simp add: step_def Let_def)

lemma read_reg_stderr [simp]: "read_reg (c\<lparr>stderr := x\<rparr>) f w = read_reg c f w"
  by (simp add: read_reg_def)

lemma op_of_special: "i \<in> {Fence, Ecall, Ebreak} \<Longrightarrow> decode w = Some i \<Longrightarrow>
    op_of (fget opcode w) \<in> {Some op_misc_mem, Some op_system}"
  by (auto simp: decode_def Let_def op_of_fld fld_def split: if_splits)

text \<open>
  The assertion that refuses each instruction without an implementation; the disassembler's
  come first, since the interpreter prints an instruction before it executes it.
\<close>

fun refused :: "insn \<Rightarrow> string option" where
  "refused (Branch k s1 s2 off) = (if k \<in> {Blt, Bge} then Some ''not implemented branch'' else None)"
| "refused (Load k d s off) = (if k = Lbu then None else Some ''not implemented load'')"
| "refused (Store k s1 s2 off) = (if k = Sh then Some ''not implemented store'' else None)"
| "refused (Opi k d s v) =
     (if k \<in> {Srl, Sra} then Some ''TODO: disassemble sr[la]i instructions'' else None)"
| "refused (Op k d s1 s2) = (if k \<in> {Add, Sub, Or} then None else Some ''not implemented r-type op.'')"
| "refused Fence = Some ''TODO: disassemble''"
| "refused Ecall = Some ''not implemented''"
| "refused Ebreak = Some ''not implemented''"
| "refused i = None"

lemma decode_fence: "decode w = Some Fence \<Longrightarrow> op_of (fget opcode w) = Some op_misc_mem"
  and decode_system: "i \<in> {Ecall, Ebreak} \<Longrightarrow> decode w = Some i \<Longrightarrow> op_of (fget opcode w) = Some op_system"
  by (auto simp: decode_def Let_def op_of_fld fld_def split: if_splits)

lemma execute_refuses:
  assumes d: "decode w = Some i" and r: "refused i = Some msg"
    and s: "i \<noteq> Fence" "\<forall>k d s v. i \<noteq> Opi k d s v"
  shows "execute False w c = Inl (Assertion_failed msg)"
  using d
proof (cases rule: decode_cases)
  case (branch k)
  then show ?thesis using r
    by (cases k) (simp_all add: execute_def exec_branch_def Let_def fget_fld
        branch_func_of_cond [OF branch(2)])
next
  case (load k)
  then show ?thesis using r
    by (auto simp: execute_def exec_load_def fget_fld load_of_def load_func_of_def enum_of_def
        split: if_splits)
next
  case (store k)
  then show ?thesis using r
    by (auto simp: execute_def exec_store_def fget_fld store_of_def store_func_of_def enum_of_def
        split: if_splits)
next
  case (op k)
  then show ?thesis using r
    by (auto simp: execute_def exec_op_def Let_def fget_fld alu_of_def op_funct3_of_def enum_of_def
        split: if_splits)
next
  case other
  with s(1) have i: "i \<in> {Ecall, Ebreak}" by blast
  from decode_system [OF i d] show ?thesis using i r by (auto simp: execute_def)
qed (use r s in simp_all)

text \<open>When a valid instruction has a text, and which assertion fails when it has none.\<close>

lemma dasm_valid:
  assumes "decode w = Some i"
  shows "\<not> null_name w" "\<not> name_out_of_table w"
    "dasm_asserts w = (if i = Fence \<or> (\<exists>k d s v. i = Opi k d s v) then refused i else None)"
proof -
  have "\<not> null_name w \<and> \<not> name_out_of_table w"
    using assms
  proof (cases rule: decode_cases)
    case other
    then show ?thesis using op_of_special [OF other assms] by (auto simp: null_name_def name_out_of_table_def)
  qed (auto simp: null_name_def name_out_of_table_def fget_fld cond_of_def load_of_def store_of_def
      split: if_splits)
  then show "\<not> null_name w" "\<not> name_out_of_table w" by simp_all
  show "dasm_asserts w = (if i = Fence \<or> (\<exists>k d s v. i = Opi k d s v) then refused i else None)"
    using assms
  proof (cases rule: decode_cases)
    case (opi k)
    then show ?thesis by (auto simp: dasm_asserts_def fget_fld opi_of_def split: if_splits)
  next
    case other
    then show ?thesis using decode_fence [of w] decode_system [OF _ assms] assms
      by (auto simp: dasm_asserts_def)
  qed (simp_all add: dasm_asserts_def)
qed

text \<open>
  Property C6. With assertions compiled in, the emulator refuses every valid instruction it
  does not support, with the assertion that belongs to it: signed branches, the loads other
  than \<open>lbu\<close>, \<open>sh\<close>, the register operations other than \<open>add\<close>, \<open>sub\<close> and \<open>or\<close>, \<open>ecall\<close> and
  \<open>ebreak\<close> fail it in the interpreter, the right shifts by an immediate and \<open>fence\<close> already in
  the disassembler, whatever the state.  The only other unsupported case is an \<open>addi\<close> whose
  signed sum overflows: it passes the assertions, and its value is undefined in C.
\<close>

theorem unsupported_instruction_refused:
  assumes "insn_ptr c AND 3 = 0" "load_u32 (mem c) (insn_ptr c) = Inr w"
    "decode w = Some i" "\<not> emulated False i (hart_of c)"
  shows "case refused i of
      Some msg \<Rightarrow> step False c = Inl (Assertion_failed msg)
    | None \<Rightarrow> (\<exists>d s v. i = Opi Add d s v) \<and> step False c = Inl (Undefined ''signed overflow'')"
proof -
  have nz: "w \<noteq> 0" using assms(3) decode_zero by auto
  note dv = dasm_valid [OF assms(3)]
  show ?thesis
  proof (cases "refused i")
    case (Some msg)
    show ?thesis
    proof (cases "i = Fence \<or> (\<exists>k d s v. i = Opi k d s v)")
      case True
      then have "dasm False w (pc c) = Inl (Assertion_failed msg)" using Some dv by (simp add: dasm_fails)
      from step_dasm_stops [OF assms(1,2) this] show ?thesis using Some by simp
    next
      case False
      then have "\<not> (\<exists>h. dasm False w (pc c) = Inl h)" using dv by (simp add: dasm_fails)
      then obtain t where t: "dasm False w (pc c) = Inr t" by (metis sum.exhaust)
      from execute_refuses [OF assms(3) Some] False show ?thesis
        using step_exec [OF assms(1,2) t nz] Some by simp
    qed
  next
    case None
    then obtain d s v where i: "i = Opi Add d s v"
      and o: "\<not> (- (2 ^ 31) \<le> sint (xreg (hart_of c) s) + sint v \<and> sint (xreg (hart_of c) s) + sint v < 2 ^ 31)"
      using assms(4)
    proof (cases i)
      case (Branch k s1 s2 off)
      then show ?thesis using that assms(4) None by (cases k) simp_all
    next
      case (Store k s1 s2 off)
      then show ?thesis using that assms(4) None by (cases k) simp_all
    qed (use that None in \<open>auto split: alu_op.splits if_splits\<close>)
    with None have "\<not> (\<exists>h. dasm False w (pc c) = Inl h)" using dv by (simp add: dasm_fails)
    then obtain t where t: "dasm False w (pc c) = Inr t" by (metis sum.exhaust)
    from assms(3) i have "op_of (fget opcode w) = Some op_imm" "fld 14 12 w = 0"
      "s = ucast (fld 19 15 w)" "v = imm_i w"
      by (auto elim!: decode_cases simp: opi_of_def opi_operand_def split: if_splits)
    with o have "execute False w (c\<lparr>stderr := x\<rparr>) = Inl (Undefined ''signed overflow'')" for x
      by (auto simp: execute_def exec_imm_def fget_fld imm_func_of_cases add_i32_def xreg_read_reg
          bit_cast_i32_def read_i_immediate_eq)
    with i None show ?thesis using step_exec [OF assms(1,2) t nz] by simp
  qed
qed

text \<open>\<open>ecall\<close> is such an instruction, and \<open>srli a0, a0, 1\<close> is refused while it is printed.\<close>

theorem unsupported_instruction_refused_witness:
  "step False (demo 0x00000073) = Inl (Assertion_failed ''not implemented'')
   \<and> step False (demo 0x00155513) = Inl (Assertion_failed ''TODO: disassemble sr[la]i instructions'')"
proof -
  have "decode 0x00000073 = Some Ecall" "decode 0x00155513 = Some (Opi Srl 10 10 1)"
    by (simp_all add: decode_def fld_def opi_of_def opi_operand_def)
  from unsupported_instruction_refused [OF demo_ok(2) demo_load this(1)]
    unsupported_instruction_refused [OF demo_ok(2) demo_load this(2)]
  show ?thesis by simp
qed

text \<open>
  Property C31. A word whose low seven bits are no opcode of the enumeration, so no valid
  instruction, is skipped in silence: the emulator goes on with the next word.
\<close>

theorem reserved_opcode_skipped:
  assumes "insn_ptr c AND 3 = 0" "load_u32 (mem c) (insn_ptr c) = Inr w"
    "op_of (fget opcode w) = None" "w \<noteq> 0"
  shows "decode w = None \<and> (\<exists>c'. step nd c = Inr c' \<and> hart_of c' = next_pc (hart_of c))"
proof -
  have "decode w = None"
  proof (rule ccontr)
    assume "decode w \<noteq> None"
    then obtain i where i: "decode w = Some i" by blast
    then show False
      using assms(3) op_of_special [OF _ i] by (cases rule: decode_cases) auto
  qed
  moreover obtain t where "dasm nd w (pc c) = Inr t"
    using dasm_stops [of nd w "pc c"] assms(3) by (metis option.simps(4) sum.exhaust)
  then have "\<exists>c'. step nd c = Inr c' \<and> hart_of c' = next_pc (hart_of c)"
    using step_exec [OF assms(1,2) _ assms(4)] assms(3)
    by (simp add: execute_def hart_of_pc next_pc_def)
  ultimately show ?thesis by blast
qed

text \<open>\<open>0x57\<close> carries the reserved opcode \<open>0b1010111\<close>.\<close>

theorem reserved_opcode_skipped_witness:
  "decode 0x57 = None \<and> (\<exists>c'. step False (demo 0x57) = Inr c'
     \<and> hart_of c' = next_pc (hart_of (demo 0x57)))"
proof (rule reserved_opcode_skipped [OF demo_ok(2) demo_load])
  show "op_of (fget opcode 0x57) = None"
    by (simp add: op_of_def enum_of_def all_insn_ops_def layout bf_get_def)
qed simp

text \<open>
  Property C29. With assertions compiled out, \<open>srai\<close> runs as \<open>srli\<close>: the code looks for
  the distinguishing bit at bit 12 of the sign-extended immediate, which is bit 31 of the
  instruction, instead of bit 10.
\<close>

theorem srai_runs_as_srli:
  assumes "machine_ok c" "insn_ptr c AND 3 = 0" "load_u32 (mem c) (insn_ptr c) = Inr w"
    "decode w = Some (Opi Sra d s v)"
  shows "\<exists>c'. step True c = Inr c'
    \<and> hart_of c' = next_pc (set_x d (alu Srl (xreg (hart_of c) s) v) (hart_of c))"
proof -
  from assms(4) have op: "op_of (fget opcode w) = Some op_imm"
    and f: "opi_of (fld 14 12 w) (fld 31 25 w) = Some Sra"
    and regs: "d = ucast (fld 11 7 w)" "s = ucast (fld 19 15 w)" "v = opi_operand Sra w"
    by (auto elim!: decode_cases)
  from f have f3: "fld 14 12 w = 5" and "fld 31 25 w = 32"
    by (auto simp: opi_of_def split: if_splits)
  then have nb: "\<not> bit w 31" using fld_31_25_bit [of w] by simp
  have "\<not> (\<exists>h. dasm True w (pc c) = Inl h)" by (simp add: dasm_stops op)
  then obtain t where t: "dasm True w (pc c) = Inr t" by (metis sum.exhaust)
  have nz: "w \<noteq> 0" using assms(4) decode_zero by auto
  let ?c = "c\<lparr>stderr := stderr c @ log_insn (pc c) w @ t @ newline\<rparr>"
  let ?r = "drop_bit (unat (fld 24 20 w)) (read_reg c rs1 w)"
  have "execute True w ?c = Inr (set_reg ?c w ?r)"
    by (simp add: execute_def op exec_imm_def fget_funct3 f3 imm_func_of_cases
        shift_right_imm_logical [OF nb])
  moreover have "hart_of (set_reg ?c w ?r) = set_x d ?r (hart_of c)"
    using hart_of_set_reg [of ?c w ?r] assms(1) by (simp add: regs)
  ultimately show ?thesis
    using step_exec [OF assms(2,3) t nz]
    by (simp add: hart_of_pc next_pc_def regs xreg_read_reg opi_operand_def take_bit_fld_shamt)
qed

text \<open>
  \<open>srai a0, a1, 1\<close> with \<open>a1 = -8\<close>: the specification gives -4, the emulator the
  logical shift.
\<close>

definition demo_srai :: machine where
  "demo_srai = demo 0x4015d513\<lparr>cpu := \<lparr>registers = (replicate 32 0)[10 := 0xfffffff8]\<rparr>\<rparr>"

theorem srai_runs_as_srli_witness:
  "alu Sra (xreg (hart_of demo_srai) 11) 1 = 0xfffffffc
   \<and> alu Srl (xreg (hart_of demo_srai) 11) 1 = 0x7ffffffc
   \<and> (\<exists>c'. step True demo_srai = Inr c' \<and> hart_of c'
        = next_pc (set_x 10 (alu Srl (xreg (hart_of demo_srai) 11) 1) (hart_of demo_srai)))"
proof -
  have r: "xreg (hart_of demo_srai) 11 = 0xfffffff8"
    by (simp add: demo_srai_def read_register_def)
  have p: "insn_ptr demo_srai = insn_ptr (demo 0x4015d513)" "mem demo_srai = mem (demo 0x4015d513)"
    by (simp_all add: demo_srai_def insn_ptr_def)
  have ok: "machine_ok demo_srai"
    using demo_ok(1) [of "0x4015d513"] by (simp add: machine_ok_def demo_srai_def cpu_ok_def)
  have d: "decode 0x4015d513 = Some (Opi Sra 10 11 1)"
    by (simp add: decode_def fld_def opi_of_def opi_operand_def)
  have "\<exists>c'. step True demo_srai = Inr c' \<and> hart_of c'
        = next_pc (set_x 10 (alu Srl (xreg (hart_of demo_srai) 11) 1) (hart_of demo_srai))"
    by (rule srai_runs_as_srli [OF ok _ _ d]) (simp_all add: p demo_ok demo_load)
  then show ?thesis by (simp add: r)
qed

text \<open>
  Property C30. With assertions compiled out, a valid instruction without an implementation
  is a no-op: signed branches are never taken, and the loads other than \<open>lbu\<close>,
  \<open>sh\<close>, \<open>ecall\<close> and \<open>ebreak\<close> only advance the pc.
\<close>

theorem ndebug_skips_unimplemented:
  assumes "insn_ptr c AND 3 = 0" "load_u32 (mem c) (insn_ptr c) = Inr w" "decode w = Some i"
    "case i of Branch k _ _ _ \<Rightarrow> k \<in> {Blt, Bge} | Load k _ _ _ \<Rightarrow> k \<noteq> Lbu
       | Store k _ _ _ \<Rightarrow> k = Sh | Op k _ _ _ \<Rightarrow> k \<notin> {Add, Sub, Or}
       | Fence \<Rightarrow> True | Ecall \<Rightarrow> True | Ebreak \<Rightarrow> True | _ \<Rightarrow> False"
  shows "\<exists>c'. step True c = Inr c' \<and> hart_of c' = next_pc (hart_of c)"
proof -
  have ex: "execute True w c' = Inr c'" for c'
    using assms(3)
  proof (cases rule: decode_cases)
    case (branch k)
    then show ?thesis using assms(4)
      by (auto simp: execute_def exec_branch_def Let_def fget_fld branch_func_of_cond [OF branch(2)])
  next
    case (load k)
    then show ?thesis using assms(4)
      by (auto simp: execute_def exec_load_def fget_fld load_of_def load_func_of_def enum_of_def
          split: if_splits)
  next
    case (store k)
    then show ?thesis using assms(4)
      by (auto simp: execute_def exec_store_def fget_fld store_of_def store_func_of_def enum_of_def
          split: if_splits)
  next
    case (op k)
    then show ?thesis using assms(4)
      by (auto simp: execute_def exec_op_def Let_def fget_fld alu_of_def op_funct3_of_def enum_of_def
          split: if_splits)
  next
    case other
    then show ?thesis using op_of_special [OF other assms(3)] by (auto simp: execute_def)
  qed (use assms(4) in simp_all)
  have "\<not> (\<exists>h. dasm True w (pc c) = Inl h)"
    using assms(3)
  proof (cases rule: decode_cases)
    case other
    then show ?thesis using op_of_special [OF other assms(3)] by (auto simp: dasm_stops)
  qed (use assms(4) in \<open>auto simp: dasm_stops fget_fld cond_of_def load_of_def store_of_def
        split: if_splits\<close>)
  then obtain t where "dasm True w (pc c) = Inr t" by (metis sum.exhaust)
  moreover have "w \<noteq> 0" using assms(3) decode_zero by auto
  ultimately show ?thesis
    using step_exec [OF assms(1,2)] by (simp add: ex hart_of_pc next_pc_def)
qed

text \<open>\<open>blt zero, a0, 8\<close>.\<close>

theorem ndebug_skips_unimplemented_witness:
  "\<exists>c'. step True (demo 0x00a04463) = Inr c' \<and> hart_of c' = next_pc (hart_of (demo 0x00a04463))"
proof (rule ndebug_skips_unimplemented [OF demo_ok(2) demo_load])
  show "decode 0x00a04463 = Some (Branch Blt 0 10 8)"
    by (simp add: decode_def fld_def cond_of_def imm_b_def sext_def)
qed simp

end
