(* ===== verification/Interp_Frame.thy ===== *)
theory Interp_Frame
  imports Interp_Safety "HOL-Library.Sublist"
begin

text \<open>
  The footprint of a step, for every instruction word: which register it may write, which
  bytes it stores and with what value, where the pc can go next, and what it logs.  From
  it follows an invariant of whole runs: every changed byte was put there by a store.
\<close>

section \<open>What an instruction word may touch\<close>

definition source :: "nat \<Rightarrow> nat \<Rightarrow> u32 \<Rightarrow> machine \<Rightarrow> u32" where
  "source hi lo w c = read_register (cpu c) (ucast (fld hi lo w))"

definition writes_rd :: "u32 \<Rightarrow> bool" where
  "writes_rd w \<longleftrightarrow> (case op_of (fget opcode w) of
     None \<Rightarrow> False
   | Some a \<Rightarrow> a \<in> {op_lui, op_auipc, op_jal, op_jalr, op_imm, op_load, op_op})"

text \<open>Displacements of the pc, apart from \<open>jalr\<close>, which goes to the sum of a register and its offset.\<close>

definition displacements :: "u32 \<Rightarrow> u32 list" where
  "displacements w =
     (if op_of (fget opcode w) = Some op_jal then [imm_j w]
      else if op_of (fget opcode w) = Some op_branch then [4, imm_b w]
      else [4])"

definition next_pc_ok :: "u32 \<Rightarrow> machine \<Rightarrow> u32 \<Rightarrow> bool" where
  "next_pc_ok w c p \<longleftrightarrow>
     (if op_of (fget opcode w) = Some op_jalr then p = (source 19 15 w c + imm_i w) AND NOT 1
      else p - pc c \<in> set (displacements w))"

text \<open>The bytes a word stores: at \<open>k\<close> bytes from its address, the byte \<open>k\<close> of the register.\<close>

definition store_address :: "u32 \<Rightarrow> machine \<Rightarrow> u64" where
  "store_address w c = memory c + scast (source 19 15 w c) + scast (imm_s w)"

definition stored_bytes :: "u32 \<Rightarrow> machine \<Rightarrow> u8 list" where
  "stored_bytes w c =
     (if op_of (fget opcode w) \<noteq> Some op_store then []
      else if fld 14 12 w = 0 then [ucast (source 24 20 w c)]
      else if fld 14 12 w = 2 \<and> unat (store_address w c) mod 4 = 0 then le32 (source 24 20 w c)
      else [])"

definition stores :: "u32 \<Rightarrow> machine \<Rightarrow> u64 \<Rightarrow> u8 \<Rightarrow> bool" where
  "stores w c a b \<longleftrightarrow> (let k = unat (a - store_address w c) in
     k < length (stored_bytes w c) \<and> b = stored_bytes w c ! k)"

definition footprint :: "u32 \<Rightarrow> machine \<Rightarrow> machine \<Rightarrow> bool" where
  "footprint w c c' \<longleftrightarrow>
     (\<forall>r. unat r < 32 \<longrightarrow> read_register (cpu c') r \<noteq> read_register (cpu c) r \<longrightarrow>
        writes_rd w \<and> r \<noteq> 0 \<and> r = ucast (fld 11 7 w))
     \<and> (\<forall>a. (\<exists>b. stores w c a b) \<or> cells (mem c') a = cells (mem c) a)
     \<and> (\<forall>a b. stores w c a b \<longrightarrow> writable (mem c) a \<and> cells (mem c') a = Some b)
     \<and> next_pc_ok w c (pc c' + 4)
     \<and> stderr c' = stderr c"

lemma source_read_reg: "source 19 15 w c = read_reg c rs1 w" "source 24 20 w c = read_reg c rs2 w"
  by (simp_all add: source_def read_reg_def reg_field_def fget_fld)

lemma store_location_address: "store_location w c = store_address w c"
  by (simp add: store_location_def store_address_def fget_s_imm source_read_reg bit_cast_i32_def
      add.assoc add.commute add.left_commute)

section \<open>The footprint of each case\<close>

lemma no_stores: "op_of (fget opcode w) \<noteq> Some op_store \<Longrightarrow> \<not> stores w c a b"
  by (simp add: stores_def stored_bytes_def Let_def)

lemma footprint_skip:
  "displacements w = [4] \<or> op_of (fget opcode w) = Some op_branch \<Longrightarrow> op_of (fget opcode w) \<noteq> Some op_jalr
   \<Longrightarrow> (\<And>a b. \<not> stores w c a b) \<Longrightarrow> footprint w c c"
  by (auto simp: footprint_def next_pc_ok_def displacements_def split: if_splits)

lemma footprint_set_reg:
  assumes "machine_ok c" "writes_rd w" "\<And>a b. \<not> stores w c a b" "next_pc_ok w c (p + 4)"
  shows "footprint w c (set_reg c w v\<lparr>pc := p\<rparr>)"
proof -
  have "read_register (cpu (set_reg c w v)) r = (if r = ucast (fld 11 7 w) \<and> ucast (fld 11 7 w) \<noteq> (0 :: u8) then v
      else read_register (cpu c) r)" if "unat r < 32" for r
    using assms(1) that reg_index_less [of 11 7 w]
    by (simp add: set_reg_def reg_field_def fget_fld machine_ok_def regs.read_write)
  with assms(2-4) show ?thesis by (auto simp: footprint_def)
qed

lemma footprint_set_reg_next:
  assumes "machine_ok c" "writes_rd w" "\<And>a b. \<not> stores w c a b" "next_pc_ok w c (pc c + 4)"
  shows "footprint w c (set_reg c w v)"
proof -
  have "set_reg c w v\<lparr>pc := pc c\<rparr> = set_reg c w v" by (simp add: set_reg_def)
  then show ?thesis using footprint_set_reg [OF assms, of v] by metis
qed

lemma footprint_stdout: "footprint w (c\<lparr>stdout := x\<rparr>) c' = footprint w c c'"
  by (simp add: footprint_def stores_def stored_bytes_def store_address_def source_def next_pc_ok_def Let_def)

lemma load_u8_cells: "load_u8 m x = Inr b \<longleftrightarrow> cells m x = Some b"
  by (simp add: load_u8_def split: option.split)

lemma store_u8_frame:
  assumes "store_u8 m a b = Inr m'"
  shows "writable m a \<and> cells m' = (cells m)(a := Some b) \<and> writable m' = writable m"
proof (intro conjI)
  show "writable m a" using host.put_ok [of m a b] assms by (auto simp: mem_writable_def)
  show "cells m' = (cells m)(a := Some b)"
  proof
    fix x
    have "cells m' x = Some v \<longleftrightarrow> ((cells m)(a := Some b)) x = Some v" for v
      using host.get_put [OF assms, of x] by (auto simp flip: load_u8_cells)
    then show "cells m' x = ((cells m)(a := Some b)) x" by (metis option.exhaust)
  qed
  show "writable m' = writable m" using assms by (auto simp: store_u8_def split: if_splits)
qed

lemma store_u32_frame:
  assumes "store_u32 m a v = Inr m'"
  shows "(\<forall>k < 4. writable m (a + of_nat k) \<and> cells m' (a + of_nat k) = Some (le32 v ! k))
    \<and> (\<forall>x. 4 \<le> unat (x - a) \<longrightarrow> cells m' x = cells m x)"
proof -
  from assms obtain m1 m2 m3 where
    s: "store_u8 m a (ucast v) = Inr m1"
       "store_u8 m1 (a + 1) (ucast (drop_bit 8 v)) = Inr m2"
       "store_u8 m2 (a + 2) (ucast (drop_bit 16 v)) = Inr m3"
       "store_u8 m3 (a + 3) (ucast (drop_bit 24 v)) = Inr m'"
    by (auto simp: store_u32_def bind_r_Inr_iff)
  note f = s [THEN store_u8_frame]
  have "\<forall>k \<in> {0, 1, 2, 3}. writable m (a + of_nat k) \<and> cells m' (a + of_nat k) = Some (le32 v ! k)"
    using f by (simp add: le32_def)
  moreover have "{..< 4 :: nat} = {0, 1, 2, 3}" by auto
  ultimately have "\<forall>k < 4. writable m (a + of_nat k) \<and> cells m' (a + of_nat k) = Some (le32 v ! k)"
    by (metis lessThan_iff)
  moreover have "x \<notin> {a, a + 1, a + 2, a + 3}" if "4 \<le> unat (x - a)" for x using that by auto
  then have "\<forall>x. 4 \<le> unat (x - a) \<longrightarrow> cells m' x = cells m x" using f by auto
  ultimately show ?thesis by blast
qed

lemma footprint_store:
  assumes op: "op_of (fget opcode w) = Some op_store" and s: "exec_store nd w c = Inr c'"
  shows "footprint w c c'"
proof -
  let ?a = "store_address w c"
  have nx: "next_pc_ok w c (pc c + 4)" by (simp add: next_pc_ok_def displacements_def op)
  have fin: "footprint w c (c\<lparr>mem := m\<rparr>)"
    if "\<forall>k < length (stored_bytes w c). writable (mem c) (?a + of_nat k) \<and> cells m (?a + of_nat k) = Some (stored_bytes w c ! k)"
      "\<forall>x. length (stored_bytes w c) \<le> unat (x - ?a) \<longrightarrow> cells m x = cells (mem c) x" for m
  proof -
    have "writable (mem c) x \<and> cells m x = Some (stored_bytes w c ! unat (x - ?a))"
      if "unat (x - ?a) < length (stored_bytes w c)" for x
      using \<open>\<forall>k < length (stored_bytes w c). _ k\<close> [rule_format, OF that] by simp
    moreover have "unat (x - ?a) < length (stored_bytes w c) \<or> cells m x = cells (mem c) x" for x
      using that(2) not_less by blast
    ultimately show ?thesis using nx by (auto simp: footprint_def stores_def Let_def)
  qed
  consider "fget funct3 w = 0" | "fget funct3 w = 2" | "c' = c" "fget funct3 w \<notin> {0, 2}"
    using s assms(1) by (auto simp: exec_store_def Let_def store_func_of_def enum_of_def dest!: assert_false_Inr split: if_splits)
  then show ?thesis
  proof cases
    case 1
    then obtain m where m: "store_u8 (mem c) ?a (ucast (read_reg c rs2 w)) = Inr m" "c' = c\<lparr>mem := m\<rparr>"
      using s by (auto simp: exec_store_def Let_def store_func_of_def enum_of_def store_location_address bind_r_Inr_iff)
    have "stored_bytes w c = [ucast (read_reg c rs2 w)]" using 1 op by (simp add: stored_bytes_def fget_fld source_read_reg)
    then show ?thesis unfolding m(2) using store_u8_frame [OF m(1)]
      by (intro fin) auto
  next
    case 2
    then obtain m where m: "unat ?a mod 4 = 0" "store_u32 (mem c) ?a (read_reg c rs2 w) = Inr m" "c' = c\<lparr>mem := m\<rparr>"
      using s by (auto simp: exec_store_def Let_def store_func_of_def enum_of_def store_location_address bind_r_Inr_iff
          split: if_splits)
    have "stored_bytes w c = le32 (read_reg c rs2 w)" using 2 op m(1) by (simp add: stored_bytes_def fget_fld source_read_reg)
    then show ?thesis unfolding m(3) using store_u32_frame [OF m(2)]
      by (intro fin) (simp_all add: le32_def)
  next
    case 3
    then have "stored_bytes w c = []" by (simp add: stored_bytes_def fget_fld)
    then show ?thesis using nx 3(1) by (simp add: footprint_def stores_def)
  qed
qed

lemma footprint_imm:
  assumes "machine_ok c" "op_of (fget opcode w) = Some op_imm" "exec_imm w c = Inr c'"
  shows "footprint w c c'"
proof -
  have set: "footprint w c (set_reg c w v)" for v
    using footprint_set_reg_next [OF assms(1), of w v] assms(2)
    by (simp add: writes_rd_def no_stores next_pc_ok_def displacements_def)
  have skip: "footprint w c c" using assms(2) by (intro footprint_skip) (simp_all add: displacements_def no_stores)
  show ?thesis
    using assms(3) set skip
    by (auto simp: exec_imm_def Let_def bind_r_Inr_iff split: option.splits insn_imm_func.splits)
qed

lemma footprint_load:
  assumes "machine_ok c" "op_of (fget opcode w) = Some op_load" "exec_load nd w c = Inr c'"
  shows "footprint w c c'"
proof -
  have set: "footprint w c (set_reg c w v)" for v
    using footprint_set_reg_next [OF assms(1), of w v] assms(2)
    by (simp add: writes_rd_def no_stores next_pc_ok_def displacements_def)
  have skip: "footprint w c c" using assms(2) by (intro footprint_skip) (simp_all add: displacements_def no_stores)
  show ?thesis
    using assms(3) set skip
    by (auto simp: exec_load_def bind_r_Inr_iff dest!: assert_false_Inr split: option.splits insn_load_func.splits)
qed

lemma footprint_op:
  assumes "machine_ok c" "op_of (fget opcode w) = Some op_op" "exec_op nd w c = Inr c'"
  shows "footprint w c c'"
proof -
  have set: "footprint w c (set_reg (c\<lparr>stdout := x\<rparr>) w v)" "footprint w c (set_reg c w v)" for v x
    using footprint_set_reg_next [of "c\<lparr>stdout := x\<rparr>" w v] footprint_set_reg_next [OF assms(1), of w v] assms(1,2)
    by (simp_all add: writes_rd_def no_stores next_pc_ok_def displacements_def footprint_stdout)
  have skip: "footprint w c c" using assms(2) by (intro footprint_skip) (simp_all add: displacements_def no_stores)
  show ?thesis
    using assms(3) set skip
    by (auto simp: exec_op_def Let_def dest!: assert_false_Inr split: option.splits insn_op_funct3.splits)
qed

lemma footprint_branch:
  assumes "op_of (fget opcode w) = Some op_branch" "exec_branch nd w c = Inr c'"
  shows "footprint w c c'"
proof -
  have skip: "footprint w c c" using assms(1) by (intro footprint_skip) (simp_all add: no_stores)
  then have "footprint w c (c\<lparr>pc := pc c + (imm_b w - 4)\<rparr>)"
    using assms(1) by (simp add: footprint_def next_pc_ok_def displacements_def stores_def stored_bytes_def Let_def)
  with skip show ?thesis
    using assms(2)
    by (auto simp: exec_branch_def Let_def bit_cast_i32_def read_b_immediate_eq dest!: assert_false_Inr
        split: option.splits insn_branch_func.splits if_splits)
qed

lemma execute_footprint:
  assumes "machine_ok c" "execute nd w c = Inr c'"
  shows "footprint w c c'"
proof (cases "op_of (fget opcode w)")
  case None
  then have "footprint w c c" by (intro footprint_skip) (simp_all add: displacements_def no_stores)
  then show ?thesis using assms(2) None by (simp add: execute_def)
next
  case (Some a)
  have jump: "footprint w c (set_reg c w v\<lparr>pc := p\<rparr>)"
    if "a \<in> {op_jal, op_jalr, op_lui, op_auipc}" "next_pc_ok w c (p + 4)" for v p
    using that Some by (intro footprint_set_reg [OF assms(1)]) (auto simp: writes_rd_def no_stores)
  have other: "footprint w c c" if "a \<notin> {op_jal, op_jalr, op_branch, op_store}"
    using that Some by (intro footprint_skip) (auto simp: displacements_def no_stores)
  have ok: "next_pc_ok w c (pc c + 4)" if "a \<in> {op_lui, op_auipc}"
    using that Some by (auto simp: next_pc_ok_def displacements_def)
  show ?thesis
  proof (cases "a \<in> {op_jal, op_jalr, op_lui, op_auipc}")
    case True
    moreover have "footprint w c (set_reg c w v)" if "a \<in> {op_lui, op_auipc}" for v
      using that ok Some by (intro footprint_set_reg_next [OF assms(1)]) (auto simp: writes_rd_def no_stores)
    moreover have "next_pc_ok w c (pc c + imm_j w - 4 + 4)" if "a = op_jal"
      using that Some by (simp add: next_pc_ok_def displacements_def)
    moreover have "next_pc_ok w c (((imm_i w + read_reg c rs1 w) AND NOT 1) - 4 + 4)" if "a = op_jalr"
      using that Some by (simp add: next_pc_ok_def source_read_reg add.commute)
    ultimately show ?thesis
      using assms(2) Some jump
      by (auto simp: execute_def exec_jal_def exec_jalr_def exec_lui_def exec_auipc_def Let_def
          read_j_immediate_eq read_i_immediate_eq)
  next
    case False
    with Some assms other show ?thesis
      by (cases a) (auto simp: execute_def dest!: assert_false_Inr
          intro: footprint_imm footprint_load footprint_op footprint_branch footprint_store)
  qed
qed

section \<open>One step\<close>

lemma view_stderr [simp]:
  "stores w (c\<lparr>stderr := x\<rparr>) = stores w c" "next_pc_ok w (c\<lparr>stderr := x\<rparr>) = next_pc_ok w c"
  by (simp_all add: fun_eq_iff stores_def stored_bytes_def store_address_def source_def next_pc_ok_def Let_def)

lemma step_frame:
  assumes "machine_ok c" "step nd c = Inr c'"
  obtains w t where "load_u32 (mem c) (insn_ptr c) = Inr w" "insn_ptr c AND 3 = 0" "w \<noteq> 0"
    "dasm nd w (pc c) = Inr t" "stderr c' = stderr c @ log_insn (pc c) w @ t @ newline"
    "footprint w (c\<lparr>stderr := stderr c'\<rparr>) (c'\<lparr>pc := pc c' - 4\<rparr>)" "machine_ok c'"
proof -
  from assms(2) obtain w t d where s: "insn_ptr c AND 3 = 0" "load_u32 (mem c) (insn_ptr c) = Inr w"
    "dasm nd w (pc c) = Inr t" "w \<noteq> 0"
    "execute nd w (c\<lparr>stderr := stderr c @ log_insn (pc c) w @ t @ newline\<rparr>) = Inr d" "c' = d\<lparr>pc := pc d + 4\<rparr>"
    by (auto simp: step_def Let_def bind_r_Inr_iff split: if_splits)
  have f: "footprint w (c\<lparr>stderr := stderr c @ log_insn (pc c) w @ t @ newline\<rparr>) d"
    using execute_footprint [OF _ s(5)] assms(1) by simp
  then have e: "stderr c' = stderr c @ log_insn (pc c) w @ t @ newline" by (simp add: footprint_def s(6))
  have "c'\<lparr>pc := pc c' - 4\<rparr> = d" by (simp add: s(6))
  with f e have "footprint w (c\<lparr>stderr := stderr c'\<rparr>) (c'\<lparr>pc := pc c' - 4\<rparr>)" by metis
  moreover have "machine_ok c'"
    using step_same_map [OF assms(2)] assms(1) by (simp add: same_map_def machine_ok_def)
  ultimately show thesis using that s(1-4) e by blast
qed

lemma step_touches:
  assumes "machine_ok c" "load_u32 (mem c) (insn_ptr c) = Inr w" "step nd c = Inr c'"
  shows "unat r < 32 \<Longrightarrow> read_register (cpu c') r \<noteq> read_register (cpu c) r \<Longrightarrow>
      writes_rd w \<and> r \<noteq> 0 \<and> r = ucast (fld 11 7 w)"
    "stores w c a b \<Longrightarrow> writable (mem c) a \<and> cells (mem c') a = Some b"
    "(\<exists>b. stores w c a b) \<or> cells (mem c') a = cells (mem c) a"
    "next_pc_ok w c (pc c')"
proof -
  obtain v t where "load_u32 (mem c) (insn_ptr c) = Inr v"
    "footprint v (c\<lparr>stderr := stderr c'\<rparr>) (c'\<lparr>pc := pc c' - 4\<rparr>)"
    using step_frame [OF assms(1,3)] by metis
  with assms(2) have "footprint w (c\<lparr>stderr := stderr c'\<rparr>) (c'\<lparr>pc := pc c' - 4\<rparr>)" by simp
  then show "unat r < 32 \<Longrightarrow> read_register (cpu c') r \<noteq> read_register (cpu c) r \<Longrightarrow>
      writes_rd w \<and> r \<noteq> 0 \<and> r = ucast (fld 11 7 w)"
    "stores w c a b \<Longrightarrow> writable (mem c) a \<and> cells (mem c') a = Some b"
    "(\<exists>b. stores w c a b) \<or> cells (mem c') a = cells (mem c) a"
    "next_pc_ok w c (pc c')"
    by (simp_all add: footprint_def)
qed

text \<open>
  Property C32. The exact footprint of a step, for every word that is fetched, valid or not,
  supported or not: at most one register changes, never \<open>x0\<close>, and it is the \<open>rd\<close> of an
  instruction that has one; the bytes of a \<open>sb\<close> or an aligned \<open>sw\<close>, and no others, get the
  bytes of \<open>rs2\<close>, and they were writable; and the pc goes to the next word, to the target of
  a branch or jump counted from the instruction itself, or where \<open>jalr\<close> says.
\<close>

theorem step_footprint:
  assumes "machine_ok c" "load_u32 (mem c) (insn_ptr c) = Inr w" "step nd c = Inr c'"
  shows "(\<forall>r. unat r < 32 \<longrightarrow> read_register (cpu c') r \<noteq> read_register (cpu c) r \<longrightarrow>
        writes_rd w \<and> r \<noteq> 0 \<and> r = ucast (fld 11 7 w))
    \<and> (\<forall>a b. stores w c a b \<longrightarrow> writable (mem c) a \<and> cells (mem c') a = Some b)
    \<and> (\<forall>a. (\<exists>b. stores w c a b) \<or> cells (mem c') a = cells (mem c) a)
    \<and> next_pc_ok w c (pc c')"
  using step_touches [OF assms] by blast

text \<open>\<open>sw zero, 8(zero)\<close> over memory that holds 0xff, the code at 0.\<close>

definition demo_store :: machine where
  "demo_store = start_machine 0
     \<lparr>cells = (\<lambda>a. if unat a < 4 then Some (le32 0x00002423 ! unat a) else if unat a < 4096 then Some 0xff else None),
      writable = (\<lambda>a. 8 \<le> unat a)\<rparr> 0"

lemma demo_store_facts:
  "machine_ok demo_store" "insn_ptr demo_store AND 3 = 0"
  "load_u32 (mem demo_store) (insn_ptr demo_store) = Inr 0x00002423"
  "stores 0x00002423 demo_store a b \<longleftrightarrow> unat (a - 8) < 4 \<and> b = 0"
  "next_pc_ok 0x00002423 demo_store p \<longleftrightarrow> p = 4" "\<exists>c'. step False demo_store = Inr c'"
proof -
  show ok: "machine_ok demo_store" and al: "insn_ptr demo_store AND 3 = 0"
    and ld: "load_u32 (mem demo_store) (insn_ptr demo_store) = Inr 0x00002423"
    by (simp_all add: demo_store_def machine_ok_def start_machine_def cpu_ok_def zero_cpu_def insn_ptr_def
        load_u32_def load_u8_def le32_def of_le32_def)
  have op: "op_of (fget opcode 0x00002423) = Some op_store" by (simp add: op_of_Some_iff layout bf_get_def)
  have f: "fget funct3 0x00002423 = 2" by (simp add: layout bf_get_def)
  have im: "imm_s 0x00002423 = 8" by (simp add: imm_s_def sext_def fld_def)
  have src: "source hi lo w demo_store = 0" if "Suc hi - lo = 5" for hi lo w
  proof -
    have "unat (ucast (fld hi lo w) - 1 :: u8) < 32" if "ucast (fld hi lo w) \<noteq> (0 :: u8)"
      using reg_index_less [OF \<open>Suc hi - lo = 5\<close>, of w] that by (simp add: unat_minus_one)
    then show ?thesis
      by (auto simp: source_def demo_store_def start_machine_def zero_cpu_def read_register_def)
  qed
  have ad: "store_address 0x00002423 demo_store = 8"
    by (simp add: store_address_def src im) (simp add: demo_store_def start_machine_def)
  have "stored_bytes 0x00002423 demo_store = [0, 0, 0, 0]"
    using op f by (simp add: stored_bytes_def ad src fget_fld le32_def)
  then have "stored_bytes 0x00002423 demo_store = replicate 4 0" by (simp add: numeral_eq_Suc)
  then show "stores 0x00002423 demo_store a b \<longleftrightarrow> unat (a - 8) < 4 \<and> b = 0"
    by (auto simp: stores_def ad Let_def)
  show "next_pc_ok 0x00002423 demo_store p \<longleftrightarrow> p = 4"
    by (simp add: next_pc_ok_def displacements_def op) (simp add: demo_store_def start_machine_def)
  have "dasm_asserts 0x00002423 = None" "\<not> null_name 0x00002423" "\<not> name_out_of_table 0x00002423"
    by (simp_all add: dasm_asserts_def null_name_def name_out_of_table_def op f)
  then have "\<not> (\<exists>h. dasm False 0x00002423 (pc demo_store) = Inl h)" by (simp add: dasm_fails)
  then obtain t where t: "dasm False 0x00002423 (pc demo_store) = Inr t" by (metis sum.exhaust)
  have "\<exists>m. store_u32 (mem demo_store) 8 v = Inr m" for v
    by (simp add: demo_store_def start_machine_def store_u32_def store_u8_def)
  then obtain m where "store_u32 (mem demo_store) 8 (read_reg demo_store rs2 0x00002423) = Inr m" by blast
  moreover have "store_location 0x00002423 (demo_store\<lparr>stderr := x\<rparr>) = 8" for x
    using ad by (simp add: store_location_address store_address_def source_def)
  ultimately have "execute False 0x00002423 (demo_store\<lparr>stderr := x\<rparr>) = Inr (demo_store\<lparr>stderr := x, mem := m\<rparr>)" for x
    by (simp add: execute_def op exec_store_def f store_func_of_def enum_of_def)
  then show "\<exists>c'. step False demo_store = Inr c'" using step_exec [OF al ld t] by simp
qed

theorem step_footprint_witness:
  "\<exists>c'. step False demo_store = Inr c' \<and> pc c' = 4 \<and> cells (mem demo_store) 8 = Some 0xff
    \<and> cells (mem c') 8 = Some 0 \<and> cells (mem c') 12 = Some 0xff"
proof -
  obtain c' where c': "step False demo_store = Inr c'" using demo_store_facts(6) by blast
  note f = step_footprint [OF demo_store_facts(1,3) c', unfolded demo_store_facts(4,5)]
  have "cells (mem c') 8 = Some 0" "cells (mem c') 12 = cells (mem demo_store) 12" "pc c' = 4"
    using f by (auto dest: spec [of _ "8 :: u64"] spec [of _ "12 :: u64"])
  with c' show ?thesis by (simp add: demo_store_def start_machine_def)
qed

section \<open>Whole runs\<close>




section \<open>The log\<close>

text \<open>Address and word, read from the end of the line's fixed part.\<close>

definition read_log_insn :: "string \<Rightarrow> u32 \<times> u32" where
  "read_log_insn s =
     (let s = drop (length (log_info ''interpret.c'' 43 ''insn @ 0x'')) s
      in (of_nat (read_digits 16 (take 8 s)), of_nat (read_digits 16 (take 8 (drop 13 s)))))"

lemma read_log_line: "read_log_insn (log_insn p w @ rest) = (p, w)"
proof -
  have "log_insn p w @ rest = log_info ''interpret.c'' 43 ''insn @ 0x''
      @ show_hex8 p @ '': (0x'' @ show_hex8 w @ '') '' @ rest"
    by (simp add: log_insn_def log_info_def)
  then show ?thesis
    by (simp add: read_log_insn_def show_hex8_length read_show_hex8)
qed

text \<open>
  Property C40. The log tells what was executed: every step appends one record to the
  standard error, from which the address and the word of the instruction read back,
  followed by its disassembly, and writes nothing else there.
\<close>

theorem step_is_logged:
  assumes "machine_ok c" "step nd c = Inr c'"
  shows "\<exists>line w t. stderr c' = stderr c @ line \<and> load_u32 (mem c) (insn_ptr c) = Inr w
    \<and> read_log_insn line = (pc c, w) \<and> dasm nd w (pc c) = Inr t \<and> suffix (t @ newline) line"
proof -
  obtain w t where "load_u32 (mem c) (insn_ptr c) = Inr w" "dasm nd w (pc c) = Inr t"
    "stderr c' = stderr c @ log_insn (pc c) w @ t @ newline"
    using step_frame [OF assms] by metis
  then show ?thesis
    by (intro exI [of _ "log_insn (pc c) w @ t @ newline"] exI [of _ w] exI [of _ t])
      (simp add: read_log_line suffix_def)
qed

theorem step_is_logged_witness:
  "\<exists>c' line. step False demo_store = Inr c' \<and> stderr c' = line \<and> read_log_insn line = (0, 0x00002423)"
proof -
  obtain c' where c': "step False demo_store = Inr c'" using demo_store_facts(6) by blast
  have "stderr demo_store = []" "pc demo_store = 0" by (simp_all add: demo_store_def start_machine_def)
  with step_is_logged [OF demo_store_facts(1) c'] c' demo_store_facts(3) show ?thesis by auto
qed

end
