(* ===== verification/Interp_Forward.thy ===== *)
theory Interp_Forward
  imports Interp_Frame
begin

text \<open>
  When the endless loop of the interpreter ends: code without backward jumps, in memory that
  the guest cannot write, comes to an end, since every step moves the pc to a later word.
\<close>

section \<open>Where C leaves a step undefined\<close>

text \<open>Where C leaves a step undefined: an \<open>addi\<close> (if its sum overflows), and a name the disassembler has not.\<close>

definition perhaps_undefined :: "u32 \<Rightarrow> bool" where
  "perhaps_undefined w \<longleftrightarrow> op_of (fget opcode w) = Some op_imm \<and> fget funct3 w = 0
     \<or> null_name w \<or> name_out_of_table w"

lemma undefined_execute: "execute nd w c = Inl (Undefined msg) \<Longrightarrow> perhaps_undefined w"
proof (cases "op_of (fget opcode w)")
  case (Some a)
  assume e: "execute nd w c = Inl (Undefined msg)"
  have u: "store_u8 m x y \<noteq> Inl (Undefined msg)" "load_u8 m x \<noteq> Inl (Undefined msg)" for m x y
    by (simp_all add: store_u8_def load_u8_def split: option.split)
  have u4: "store_u32 m x v \<noteq> Inl (Undefined msg)" for m x v
    by (auto simp: store_u32_def bind_r_Inl_iff u)
  have as: "assert_false nd str x \<noteq> Inl (Undefined msg)" for str and x :: machine by (cases nd) simp_all
  show ?thesis
  proof (cases a)
    case op_imm
    with e Some show ?thesis
      by (cases rule: funct3_cases [of w])
        (auto simp: perhaps_undefined_def execute_def exec_imm_def imm_func_of_cases Let_def)
  next
    case op_load
    with e Some show ?thesis
      by (auto simp: execute_def exec_load_def bind_r_Inl_iff u as split: option.splits insn_load_func.splits)
  next
    case op_store
    with e Some show ?thesis
      by (auto simp: execute_def exec_store_def Let_def bind_r_Inl_iff u u4 as
          split: option.splits insn_store_func.splits if_splits)
  next
    case op_branch
    with e Some show ?thesis
      by (auto simp: execute_def exec_branch_def Let_def as split: option.splits insn_branch_func.splits if_splits)
  next
    case op_op
    with e Some show ?thesis
      by (auto simp: execute_def exec_op_def Let_def as split: option.splits insn_op_funct3.splits)
  qed (use e Some as in \<open>simp_all add: execute_def exec_jal_def exec_jalr_def exec_lui_def exec_auipc_def Let_def\<close>)
qed (simp add: execute_def)

lemma undefined_step:
  assumes "load_u32 (mem c) (insn_ptr c) = Inr w" "step nd c = Inl (Undefined msg)"
  shows "perhaps_undefined w"
proof -
  from assms consider "dasm nd w (pc c) = Inl (Undefined msg)"
    | t where "execute nd w (c\<lparr>stderr := stderr c @ log_insn (pc c) w @ t @ newline\<rparr>) = Inl (Undefined msg)"
    by (auto simp: step_def Let_def bind_r_Inl_iff split: if_splits)
  then show ?thesis
    by cases (simp_all add: dasm_fails perhaps_undefined_def [symmetric] undefined_execute, auto simp: perhaps_undefined_def)
qed

section \<open>Code that goes forward\<close>

text \<open>Words of code in memory the guest cannot write, and a word that only goes forward.\<close>

definition code_word_at :: "machine \<Rightarrow> u32 \<Rightarrow> u32 \<Rightarrow> bool" where
  "code_word_at c p w \<longleftrightarrow> load_u32 (mem c) (host_addr c p) = Inr w
     \<and> (\<forall>k < 4. \<not> writable (mem c) (host_addr c p + of_nat k))"

definition program_at :: "u32 list \<Rightarrow> u32 \<Rightarrow> machine \<Rightarrow> bool" where
  "program_at ws p c \<longleftrightarrow> (\<forall>i < length ws. code_word_at c (p + 4 * of_nat i) (ws ! i))"

text \<open>The word at index \<open>i\<close> of \<open>n\<close> goes on to a later index, at most \<open>n\<close>.\<close>

definition forward :: "nat \<Rightarrow> nat \<Rightarrow> u32 \<Rightarrow> bool" where
  "forward n i w \<longleftrightarrow> op_of (fget opcode w) \<noteq> Some op_jalr
     \<and> (\<forall>d \<in> set (displacements w). unat d mod 4 = 0 \<and> 0 < unat d \<and> i + unat d div 4 \<le> n)"

lemma aligned_words: "p AND 3 = 0 \<Longrightarrow> (p + 4 * of_nat i) AND 3 = 0" for p :: u32
proof -
  assume "p AND 3 = 0"
  then have "unat p mod 4 = 0" by (simp only: and_3_zero)
  moreover have "unat (p + 4 * of_nat i) mod 4 = (unat p + 4 * unat (of_nat i :: u32)) mod 4"
    by (simp add: unat_word_ariths mod_mod_cancel mod_add_right_eq)
  ultimately have "unat (p + 4 * of_nat i) mod 4 = 0" by simp
  then show ?thesis by (simp only: and_3_zero)
qed

lemma of_nat_unat_self: "of_nat (unat a) = a" for a :: u32
  by simp

lemma code_word_kept:
  assumes "same_map c c'" "code_word_at c p w" shows "code_word_at c' p w"
proof -
  have h: "host_addr c' p = host_addr c p" and wr: "writable (mem c') = writable (mem c)"
    using assms(1) by (simp_all add: same_map_def host_addr_def)
  have "\<forall>k \<in> {0, 1, 2, 3}. cells (mem c') (host_addr c p + of_nat k) = cells (mem c) (host_addr c p + of_nat k)"
  proof
    fix k :: nat assume "k \<in> {0, 1, 2, 3}"
    then have "k < 4" by auto
    with assms show "cells (mem c') (host_addr c p + of_nat k) = cells (mem c) (host_addr c p + of_nat k)"
      by (auto simp: same_map_def code_word_at_def)
  qed
  then have "load_u32 (mem c') (host_addr c p) = load_u32 (mem c) (host_addr c p)"
    by (simp add: load_u32_def load_u8_def)
  with assms(2) h wr show ?thesis by (simp add: code_word_at_def)
qed

lemma forward_next:
  assumes "machine_ok c" "code_word_at c (pc c) w" "forward n i w" "step nd c = Inr c'"
  obtains j where "i < j" "j \<le> n" "pc c' = pc c + 4 * of_nat (j - i)"
proof -
  have ld: "load_u32 (mem c) (insn_ptr c) = Inr w"
    using assms(2) by (simp add: code_word_at_def insn_ptr_host_addr)
  from step_touches(4) [OF assms(1) ld assms(4)] assms(3)
  have d: "pc c' - pc c \<in> set (displacements w)" by (simp add: next_pc_ok_def forward_def split: if_splits)
  let ?d = "pc c' - pc c"
  from d assms(3) have f: "unat ?d mod 4 = 0" "0 < unat ?d" "i + unat ?d div 4 \<le> n" by (auto simp: forward_def)
  from f(1) have m: "unat ?d = 4 * (unat ?d div 4)" by presburger
  then have "?d = of_nat (4 * (unat ?d div 4))" by (metis of_nat_unat_self)
  then have "pc c' = pc c + 4 * of_nat (i + unat ?d div 4 - i)" by (simp add: algebra_simps)
  moreover have "i < i + unat ?d div 4" using f(2) m by linarith
  ultimately show thesis using that f(3) by blast
qed

lemma forward_runs:
  assumes code: "\<forall>i < length ws. forward (length ws) i (ws ! i)"
  shows "machine_ok c \<Longrightarrow> program_at (ws @ [0]) p c \<Longrightarrow> p AND 3 = 0 \<Longrightarrow> i \<le> length ws \<Longrightarrow> pc c = p + 4 * of_nat i
    \<Longrightarrow> \<exists>h d j. run (step nd) (Suc (length ws - i)) c = Some (h, d) \<and> j \<le> length ws \<and> pc d = p + 4 * of_nat j
      \<and> (j = length ws \<longrightarrow> h = Trap_illegal)
      \<and> (\<forall>msg. h = Undefined msg \<longrightarrow> j < length ws \<and> perhaps_undefined (ws ! j))"
proof (induction "length ws - i" arbitrary: i c rule: less_induct)
  case less
  have w: "code_word_at c (pc c) ((ws @ [0]) ! i)" using less.prems(2,4,5) by (simp add: program_at_def)
  then have ld: "load_u32 (mem c) (insn_ptr c) = Inr ((ws @ [0]) ! i)" by (simp add: code_word_at_def insn_ptr_host_addr)
  have last: "step nd c = Inl Trap_illegal" if "i = length ws"
  proof -
    have z: "op_of (fget opcode 0) = None" by (simp add: op_of_def enum_of_def all_insn_ops_def layout bf_get_def)
    have "(p + 4 * of_nat i) AND 3 = 0" using less.prems(3) by (rule aligned_words)
    then have "insn_ptr c AND 3 = 0"
      using host_addr_mod4 [of c "pc c"] less.prems(1,5) by (simp add: machine_ok_def insn_ptr_host_addr and_3_zero)
    with ld that z show ?thesis by (simp add: step_def dasm_def dasm_switch_def Let_def)
  qed
  show ?case
  proof (cases "step nd c")
    case (Inl h)
    have "perhaps_undefined (ws ! i) \<and> i < length ws" if "h = Undefined msg" for msg
      using undefined_step [OF ld, of nd msg] Inl that last less.prems(4) by (cases "i = length ws") (auto simp: nth_append)
    with Inl last less.prems(4,5) show ?thesis by (intro exI [of _ h] exI [of _ c] exI [of _ i]) auto
  next
    case (Inr c')
    with last less.prems(4) have i: "i < length ws" by (cases "i = length ws") auto
    have "forward (length ws) i ((ws @ [0]) ! i)" using code i by (simp add: nth_append)
    from forward_next [OF less.prems(1) w this Inr] obtain j
      where j: "i < j" "j \<le> length ws" "pc c' = pc c + 4 * of_nat (j - i)" .
    have sm: "same_map c c'" using Inr by (rule step_same_map)
    have "machine_ok c'" using sm less.prems(1) by (simp add: same_map_def machine_ok_def)
    moreover have "program_at (ws @ [0]) p c'" using less.prems(2) code_word_kept [OF sm] by (simp add: program_at_def)
    moreover have "pc c' = p + 4 * of_nat j"
      using j(1,3) less.prems(5) by (simp add: of_nat_diff algebra_simps)
    moreover have "length ws - j < length ws - i" using j i by linarith
    ultimately obtain h d k where r: "run (step nd) (Suc (length ws - j)) c' = Some (h, d)" "k \<le> length ws"
      "pc d = p + 4 * of_nat k" "k = length ws \<longrightarrow> h = Trap_illegal"
      "\<forall>msg. h = Undefined msg \<longrightarrow> k < length ws \<and> perhaps_undefined (ws ! k)"
      using less.hyps [of j c'] less.prems(3) j(2) by blast
    have "run (step nd) (length ws - i) c' = Some (h, d)" using run_mono [OF r(1)] j i by simp
    then have "run (step nd) (Suc (length ws - i)) c = Some (h, d)" using Inr by simp
    with r(2-5) show ?thesis by blast
  qed
qed

text \<open>
  Property C8. Code that only goes forward ends: let \<open>n\<close> words and an all-zero word after
  them lie in memory the guest cannot write, with no \<open>jalr\<close> among them and every branch and
  jump to a later word; the words may be anything else, stores and invalid words included.
  Then the interpreter's loop comes to an end at one of the \<open>n + 1\<close> words, in the trap on the
  all-zero word if it gets there; and if it ends because C leaves the next step undefined,
  then at an \<open>addi\<close> or at a load, branch or store whose function has no name.
\<close>

theorem forward_code_ends:
  assumes "base AND 3 = 0" "entry AND 3 = 0" "program_at (ws @ [0]) entry (start_machine base m entry)"
    and "\<forall>i < length ws. forward (length ws) i (ws ! i)"
  shows "\<exists>h d j. interpret_loop nd base m entry = Some (h, d) \<and> j \<le> length ws \<and> pc d = entry + 4 * of_nat j
    \<and> (j = length ws \<longrightarrow> h = Trap_illegal)
    \<and> (\<forall>msg. h = Undefined msg \<longrightarrow> j < length ws \<and> perhaps_undefined (ws ! j))"
proof -
  have "machine_ok (start_machine base m entry)" "pc (start_machine base m entry) = entry + 4 * of_nat 0"
    using assms(1) by (simp_all add: machine_ok_def start_machine_def cpu_ok_def zero_cpu_def)
  from forward_runs [OF assms(4) this(1) assms(3,2) _ this(2), of nd] obtain h d j where
    "run (step nd) (Suc (length ws)) (start_machine base m entry) = Some (h, d)" "j \<le> length ws"
    "pc d = entry + 4 * of_nat j" "j = length ws \<longrightarrow> h = Trap_illegal"
    "\<forall>msg. h = Undefined msg \<longrightarrow> j < length ws \<and> perhaps_undefined (ws ! j)" by auto
  with run_loop show ?thesis unfolding interpret_loop_def by metis
qed

text \<open>\<open>jal zero, 8\<close> over an \<open>ecall\<close> to \<open>lui ra, 1\<close>.\<close>

definition demo_forward :: "u32 list" where
  "demo_forward = [0x0080006f, 0x00000073, 0x000010b7]"

theorem forward_code_ends_witness:
  "\<exists>h d. interpret_loop False 0 \<lparr>cells = (\<lambda>a. if unat a < 16 then Some (le32s (demo_forward @ [0]) ! unat a) else None),
      writable = (\<lambda>_. False)\<rparr> 0 = Some (h, d) \<and> pc d \<in> {0, 4, 8, 12} \<and> (\<forall>msg. h \<noteq> Undefined msg)"
proof -
  let ?m = "\<lparr>cells = (\<lambda>a. if unat a < 16 then Some (le32s (demo_forward @ [0]) ! unat a) else None), writable = (\<lambda>_ :: u64. False)\<rparr>"
  have op: "op_of (fget opcode 0x0080006f) = Some op_jal" "op_of (fget opcode 0x00000073) = Some op_system"
    "op_of (fget opcode 0x000010b7) = Some op_lui" by (simp_all add: op_of_Some_iff layout bf_get_def)
  have j: "imm_j 0x0080006f = 8" by (simp add: imm_j_def sext_def fld_def)
  have P: "program_at (demo_forward @ [0]) 0 (start_machine 0 ?m 0)"
    by (simp add: program_at_def all_less_Suc_split code_word_at_def demo_forward_def start_machine_def host_addr_def
        load_u32_def load_u8_def le32_def of_le32_def)
  have F: "\<forall>i < length demo_forward. forward (length demo_forward) i (demo_forward ! i)"
    by (simp add: demo_forward_def all_less_Suc_split forward_def displacements_def op j)
  have len: "length demo_forward = 3" and z: "(0 :: u64) AND 3 = 0" "(0 :: u32) AND 3 = 0"
    by (simp_all add: demo_forward_def)
  from forward_code_ends [OF z P F, of False, unfolded len]
  obtain h d k where r: "interpret_loop False 0 ?m 0 = Some (h, d)" "k \<le> 3" "pc d = 0 + 4 * of_nat k"
    "\<forall>msg. h = Undefined msg \<longrightarrow> k < 3 \<and> perhaps_undefined (demo_forward ! k)" by blast
  have "\<not> perhaps_undefined (demo_forward ! k)" if "k < 3"
    using that op by (auto simp: less_Suc_eq numeral_3_eq_3 demo_forward_def perhaps_undefined_def null_name_def name_out_of_table_def)
  moreover have "k \<in> {0, 1, 2, 3}" using r(2) by auto
  then have "pc d \<in> {0, 4, 8, 12}" using r(3) by auto
  ultimately show ?thesis using r by blast
qed

end
