(* ===== verification/Out_Buf.thy ===== *)
theory Out_Buf
  imports Machine Bit_Math
begin

text \<open>
  bfc/out.h and bfc/out.c: the growing byte buffer of the compiler.  The block behind
  \<open>bytes\<close> is the list of the bytes that may be accessed through the pointer, so its length
  is the size of the allocation; an access outside it is undefined in C and an error here.
  The three things C leaves open are parameters, gathered in \<open>platform\<close>: the result of
  \<open>__builtin_clz(0)\<close>, the contents of memory fresh from \<open>realloc\<close>, and whether
  \<open>realloc\<close> succeeds (the code does not look).
\<close>

record platform =
  clz_zero :: u32
  junk :: "u32 \<Rightarrow> nat \<Rightarrow> u8"
  grants :: "u32 \<Rightarrow> bool"

record out =
  bytes :: "u8 list"
  len :: u32
  cap :: u32

definition zero_out :: out where
  "zero_out = \<lparr>bytes = [], len = 0, cap = 0\<rparr>"

section \<open>Operations\<close>

text \<open>A failed \<open>realloc\<close> leaves a null pointer: nothing can be accessed through it.\<close>

definition realloc :: "platform \<Rightarrow> u8 list \<Rightarrow> u32 \<Rightarrow> u8 list" where
  "realloc pf block n =
     (if grants pf n then take (unat n) block @ map (junk pf n) [length block..<unat n] else [])"

text \<open>
  The pointer that \<open>out_resv\<close> returns points into the current block; here it is the
  offset from \<open>bytes\<close>.
\<close>

definition out_resv :: "platform \<Rightarrow> u32 \<Rightarrow> out \<Rightarrow> u32 \<times> out" where
  "out_resv pf count s =
     (let required_cap = len s + count;
          s = (if cap s < required_cap
               then let c = max_po2 (clz_zero pf) (next_po2 (clz_zero pf) required_cap) 8
                    in s\<lparr>cap := c, bytes := realloc pf (bytes s) c\<rparr>
               else s)
      in (len s, s\<lparr>len := len s + count\<rparr>))"

text \<open>Stores and loads through a pointer into the block.\<close>

definition poke :: "u32 \<Rightarrow> u8 list \<Rightarrow> out \<Rightarrow> out result" where
  "poke at xs s =
     (if unat at + length xs \<le> length (bytes s)
      then Inr (s\<lparr>bytes := take (unat at) (bytes s) @ xs @ drop (unat at + length xs) (bytes s)\<rparr>)
      else Inl (Undefined ''access outside the buffer''))"

definition peek32 :: "u32 \<Rightarrow> out \<Rightarrow> u32 result" where
  "peek32 at s =
     (if unat at + 4 \<le> length (bytes s)
      then Inr (of_le32 (bytes s ! unat at) (bytes s ! (unat at + 1)) (bytes s ! (unat at + 2))
        (bytes s ! (unat at + 3)))
      else Inl (Undefined ''access outside the buffer''))"

text \<open>Assignments to bit fields of the word at a pointer: read it, change it, write it back.\<close>

definition update32 :: "u32 \<Rightarrow> (u32 \<Rightarrow> u32) \<Rightarrow> out \<Rightarrow> out result" where
  "update32 at f s = bind_r (peek32 at s) (\<lambda>w. poke at (le32 (f w)) s)"

definition out_destroy :: "out \<Rightarrow> bool" where
  "out_destroy s = (cap s \<noteq> 0)"

definition out_write :: "platform \<Rightarrow> u8 list \<Rightarrow> u32 \<Rightarrow> out \<Rightarrow> out result" where
  "out_write pf src count s =
     (let (at, s) = out_resv pf count s in
      if length src < unat count then Inl (Undefined ''read outside the source'')
      else poke at (take (unat count) src) s)"

definition out_writeb :: "platform \<Rightarrow> u8 \<Rightarrow> out \<Rightarrow> out result" where
  "out_writeb pf b s = (let (at, s) = out_resv pf 1 s in poke at [b] s)"

definition out_write_u32le :: "platform \<Rightarrow> u32 \<Rightarrow> out \<Rightarrow> out result" where
  "out_write_u32le pf val s = (let (at, s) = out_resv pf 4 s in poke at (le32 val) s)"

text \<open>\<open>cstr\<close> is the memory from the pointer on.\<close>

fun out_write_cstr :: "platform \<Rightarrow> u8 list \<Rightarrow> out \<Rightarrow> out result" where
  "out_write_cstr pf [] s = Inl (Undefined ''unterminated string'')"
| "out_write_cstr pf (c # cstr) s =
     (if c = 0 then Inr s else bind_r (out_writeb pf c s) (out_write_cstr pf cstr))"

definition out_write_index :: "platform \<Rightarrow> u8 list \<Rightarrow> u32 \<Rightarrow> out \<Rightarrow> (u32 \<times> out) result" where
  "out_write_index pf src count s =
     (let index = len s in bind_r (out_write pf src count s) (\<lambda>s. Inr (index, s)))"

definition out_resv_index :: "platform \<Rightarrow> u32 \<Rightarrow> out \<Rightarrow> u32 \<times> out" where
  "out_resv_index pf count s = (let index = len s; (_, s) = out_resv pf count s in (index, s))"

lemma drop_bit_7_less: "drop_bit 7 v \<noteq> 0 \<Longrightarrow> unat (drop_bit 7 v) < unat v" for v :: u64
proof -
  assume "drop_bit 7 v \<noteq> 0"
  then have "0 < unat v" by (auto simp: unat_gt_0)
  then have "unat v div 2 ^ 7 < unat v" by (intro div_less_dividend) auto
  then show ?thesis by (simp only: unat_drop_bit_eq) (simp only: drop_bit_eq_div)
qed

text \<open>
  \<open>out_write_uleb128\<close> casts the byte it has computed to a pointer and reads through it, so
  what it writes depends on the process's memory \<open>m\<close>.
\<close>

function out_write_uleb128 :: "platform \<Rightarrow> host_mem \<Rightarrow> u64 \<Rightarrow> out \<Rightarrow> out result" where
  "out_write_uleb128 pf m val s =
     (let b = ucast (val AND 0x7F) :: u8;
          val = drop_bit 7 val;
          b = (if val \<noteq> 0 then b OR 0x80 else b)
      in bind_r (load_u8 m (scast b)) (\<lambda>byte.
         bind_r (out_writeb pf byte s) (\<lambda>s.
           if val \<noteq> 0 then out_write_uleb128 pf m val s else Inr s)))"
  by pat_completeness auto

termination by (relation "measure (\<lambda>(_, _, val, _). unat val)") (auto simp: drop_bit_7_less)

section \<open>Invariant and contents\<close>

text \<open>
  Either nothing was ever reserved, or the capacity is a power of two of at least 8 bytes,
  the size of the block, and holds what was reserved.
\<close>

definition out_ok :: "out \<Rightarrow> bool" where
  "out_ok s \<longleftrightarrow> length (bytes s) = unat (cap s) \<and> len s \<le> cap s
     \<and> (cap s = 0 \<or> (\<exists>k. 3 \<le> k \<and> unat (cap s) = 2 ^ k))"

definition contents :: "out \<Rightarrow> u8 list" where
  "contents s = take (unat (len s)) (bytes s)"

text \<open>Room for \<open>n\<close> more bytes: \<open>next_po2\<close> has no answer above \<open>2 ^ 31\<close>.\<close>

definition room :: "platform \<Rightarrow> nat \<Rightarrow> out \<Rightarrow> bool" where
  "room pf n s \<longleftrightarrow> (\<forall>c. grants pf c) \<and> unat (len s) + n \<le> 2 ^ 31"

lemma out_ok_zero [simp]: "out_ok zero_out" "contents zero_out = []"
  by (simp_all add: out_ok_def zero_out_def contents_def)

lemma length_contents: "out_ok s \<Longrightarrow> length (contents s) = unat (len s)"
  by (simp add: out_ok_def contents_def word_le_nat_alt)

section \<open>Reserving\<close>

lemma unat_power_u32: "unat w = 2 ^ k \<Longrightarrow> k < 32" for w :: u32
  using unat_u32_less [of w] power_strict_increasing_iff [of "2 :: nat" k 32] by simp

text \<open>The capacity computed for \<open>r\<close> bytes, whatever the undefined \<open>__builtin_clz(0)\<close> gives.\<close>

lemma grown_cap:
  assumes "1 \<le> unat r" "unat r \<le> 2 ^ 31"
  shows "\<exists>k. 3 \<le> k \<and> unat (max_po2 z (next_po2 z r) 8) = 2 ^ k \<and> unat r \<le> 2 ^ k"
proof (cases "unat r = 1")
  case True
  then have "r = 1" by (simp add: word_unat_eq_iff)
  moreover have "push_bit (unat (32 - z) mod 32) 1 = (2 :: u32) ^ (unat (32 - z) mod 32)"
    by (simp add: push_bit_eq_mult)
  ultimately have "unat (next_po2 z r) = 2 ^ (unat (32 - z) mod 32)"
    by (simp add: next_po2_1 unat_one_shift)
  from max_po2_max [OF this, of 8 3] True show ?thesis
    by (intro exI [of _ "max (unat (32 - z) mod 32) 3"]) simp
next
  case False
  with assms(1) have "2 \<le> unat r" by linarith
  from next_po2_bounds [OF this assms(2), of z]
  obtain k where k: "unat (next_po2 z r) = 2 ^ k" "unat r \<le> 2 ^ k" by blast
  have "(2 :: nat) ^ k \<le> 2 ^ max k 3" by (intro power_increasing) auto
  with k(2) have "unat r \<le> 2 ^ max k 3" by linarith
  with max_po2_max [OF k(1), of 8 3] show ?thesis
    by (intro exI [of _ "max k 3"]) simp
qed

lemma length_realloc: "grants pf n \<Longrightarrow> length b \<le> unat n \<Longrightarrow> length (realloc pf b n) = unat n"
  by (simp add: realloc_def)

lemma take_realloc:
  "grants pf n \<Longrightarrow> length b \<le> unat n \<Longrightarrow> k \<le> length b \<Longrightarrow> take k (realloc pf b n) = take k b"
  by (simp add: realloc_def)

lemma out_resv_effect:
  assumes ok: "out_ok s" and room: "room pf (unat count) s"
  obtains s' fresh where "out_resv pf count s = (len s, s')" "out_ok s'"
    "unat (len s') = unat (len s) + unat count" "length fresh = unat count"
    "contents s' = contents s @ fresh"
proof -
  let ?r = "len s + count" and ?z = "clz_zero pf"
  define c where "c = max_po2 ?z (next_po2 ?z ?r) 8"
  define b where "b = (if cap s < ?r then realloc pf (bytes s) c else bytes s)"
  define s' where "s' = s\<lparr>bytes := b, cap := (if cap s < ?r then c else cap s), len := ?r\<rparr>"
  have r: "unat ?r = unat (len s) + unat count"
    using room by (simp add: room_def unat_word_ariths take_bit_nat_eq_self)
  have len: "unat (len s) \<le> length (bytes s)" using ok by (simp add: out_ok_def word_le_nat_alt)
  have big: "(\<exists>k. 3 \<le> k \<and> unat c = 2 ^ k) \<and> unat ?r \<le> unat c \<and> length (bytes s) \<le> unat c"
    if "cap s < ?r"
  proof -
    have "1 \<le> unat ?r" "unat ?r \<le> 2 ^ 31"
      using that room r by (simp_all add: room_def word_less_nat_alt)
    from grown_cap [OF this, of ?z]
    have c: "\<exists>k. 3 \<le> k \<and> unat c = 2 ^ k" "unat ?r \<le> unat c" by (auto simp: c_def)
    moreover have "length (bytes s) \<le> unat c"
      using that c(2) ok by (simp add: out_ok_def word_less_nat_alt)
    ultimately show ?thesis by blast
  qed
  have "out_resv pf count s = (len s, s')"
    by (simp add: out_resv_def s'_def b_def c_def Let_def)
  moreover have "out_ok s'"
    using ok big room by (auto simp: out_ok_def s'_def b_def room_def length_realloc
        word_le_nat_alt word_less_nat_alt)
  moreover have "contents s' = contents s @ drop (unat (len s)) (take (unat ?r) b)"
  proof -
    have "take (unat (len s)) b = contents s"
    proof (cases "cap s < ?r")
      case True
      then show ?thesis using len big room by (simp add: contents_def b_def room_def take_realloc)
    qed (simp add: b_def contents_def)
    moreover have "take (unat (len s)) (take (unat ?r) b) = take (unat (len s)) b"
      by (simp only: r take_take) simp
    moreover have "contents s' = take (unat ?r) b" by (simp add: contents_def s'_def)
    ultimately show ?thesis by (metis append_take_drop_id)
  qed
  moreover have "length (drop (unat (len s)) (take (unat ?r) b)) = unat count"
    using length_contents [OF calculation(2)] calculation(3) length_contents [OF ok] r
    by (simp add: s'_def)
  moreover have "unat (len s') = unat (len s) + unat count" by (simp add: s'_def r)
  ultimately show ?thesis by (intro that)
qed

text \<open>Storing inside the reserved part.\<close>

lemma take_splice:
  "a + length xs \<le> n \<Longrightarrow> n \<le> length b \<Longrightarrow>
   take n (take a b @ xs @ drop (a + length xs) b)
   = take a (take n b) @ xs @ drop (a + length xs) (take n b)"
proof -
  assume "a + length xs \<le> n" "n \<le> length b"
  then obtain c where "n = a + length xs + c" by (auto simp: le_iff_add)
  with \<open>n \<le> length b\<close> show ?thesis by (simp add: drop_take)
qed

lemma poke_effect:
  assumes "out_ok s" "unat at + length xs \<le> unat (len s)"
  obtains s' where "poke at xs s = Inr s'" "out_ok s'" "len s' = len s"
    "contents s' = take (unat at) (contents s) @ xs @ drop (unat at + length xs) (contents s)"
proof -
  define s' where "s' = s\<lparr>bytes := take (unat at) (bytes s) @ xs @ drop (unat at + length xs) (bytes s)\<rparr>"
  have len: "unat (len s) \<le> length (bytes s)" using assms(1) by (simp add: out_ok_def word_le_nat_alt)
  have "poke at xs s = Inr s'" using assms len by (simp add: poke_def s'_def)
  moreover have "out_ok s'" using assms len by (simp add: out_ok_def s'_def)
  moreover have "contents s' = take (unat at) (contents s) @ xs @ drop (unat at + length xs) (contents s)"
    using take_splice [OF assms(2) len] by (simp add: contents_def s'_def del: take_append take_take)
  ultimately show ?thesis using that by (simp add: s'_def)
qed

lemma room_resv: "room pf (m + n) s \<Longrightarrow> unat (len s') = unat (len s) + m \<Longrightarrow> room pf n s'"
  by (simp add: room_def)

lemma room_le: "room pf m s \<Longrightarrow> n \<le> m \<Longrightarrow> room pf n s"
  by (auto simp: room_def)

section \<open>The buffer as a sink of bytes\<close>

text \<open>Running a sequence of operations that may stop.\<close>

fun seq_r :: "('s \<Rightarrow> 's result) list \<Rightarrow> 's \<Rightarrow> 's result" where
  "seq_r [] s = Inr s"
| "seq_r (f # fs) s = bind_r (f s) (seq_r fs)"

text \<open>
  What the writers of the compiler rely on: writing appends, and uses up as much room as it
  writes bytes.
\<close>

locale byte_sink =
  fixes put :: "u8 list \<Rightarrow> 's \<Rightarrow> 's result" and data :: "'s \<Rightarrow> u8 list"
    and ok :: "'s \<Rightarrow> bool" and fits :: "nat \<Rightarrow> 's \<Rightarrow> bool"
  assumes put_ok: "ok s \<Longrightarrow> fits (length xs + n) s \<Longrightarrow>
    \<exists>s'. put xs s = Inr s' \<and> ok s' \<and> fits n s' \<and> data s' = data s @ xs"
begin

lemma put_all: "ok s \<Longrightarrow> fits (length (concat xss) + n) s \<Longrightarrow>
    \<exists>s'. seq_r (map put xss) s = Inr s' \<and> ok s' \<and> fits n s' \<and> data s' = data s @ concat xss"
proof (induction xss arbitrary: s)
  case (Cons xs xss)
  then obtain t where t: "put xs s = Inr t" "ok t" "fits (length (concat xss) + n) t"
      "data t = data s @ xs"
    using put_ok [of s xs "length (concat xss) + n"] by (auto simp: add.assoc)
  then obtain u where "seq_r (map put xss) t = Inr u" "ok u" "fits n u" "data u = data t @ concat xss"
    using Cons.IH by blast
  with t show ?case by simp
qed simp

end

text \<open>The operations of out.h as one writer of a list of bytes.\<close>

definition put_bytes :: "platform \<Rightarrow> u8 list \<Rightarrow> out \<Rightarrow> out result" where
  "put_bytes pf xs s = (let (at, s) = out_resv pf (of_nat (length xs)) s in poke at xs s)"

lemma put_bytes_effect:
  assumes "out_ok s" "room pf (length xs + n) s"
  shows "\<exists>s'. put_bytes pf xs s = Inr s' \<and> out_ok s' \<and> room pf n s' \<and> contents s' = contents s @ xs"
proof -
  have u: "unat (of_nat (length xs) :: u32) = length xs"
    using assms(2) by (simp add: room_def unat_of_nat take_bit_nat_eq_self)
  then have "room pf (unat (of_nat (length xs) :: u32)) s" using assms(2) by (simp add: room_le)
  from out_resv_effect [OF assms(1) this] obtain t fresh
    where t: "out_resv pf (of_nat (length xs)) s = (len s, t)" "out_ok t"
      "unat (len t) = unat (len s) + length xs" "length fresh = length xs"
      "contents t = contents s @ fresh" by (metis u)
  then have "unat (len s) + length xs \<le> unat (len t)" by simp
  from poke_effect [OF t(2) this] obtain s'
    where s': "poke (len s) xs t = Inr s'" "out_ok s'" "len s' = len t"
      "contents s' = take (unat (len s)) (contents t) @ xs @ drop (unat (len s) + length xs) (contents t)" .
  have "contents s' = contents s @ xs"
    using s'(4) t(4,5) length_contents [OF assms(1)] by simp
  moreover have "room pf n s'" using room_resv [OF assms(2)] t(3) s'(3) by simp
  ultimately show ?thesis using t s' by (simp add: put_bytes_def)
qed

interpretation bytes_of: byte_sink "put_bytes pf" contents out_ok "room pf" for pf
  by unfold_locales (rule put_bytes_effect)

lemma out_write_put:
  "out_write pf src count s = (if length src < unat count then Inl (Undefined ''read outside the source'')
     else put_bytes pf (take (unat count) src) s)"
  by (simp add: out_write_def put_bytes_def split: prod.split)

lemma out_writeb_put: "out_writeb pf b s = put_bytes pf [b] s"
  by (simp add: out_writeb_def put_bytes_def)

lemma out_write_u32le_put: "out_write_u32le pf w s = put_bytes pf (le32 w) s"
  by (simp add: out_write_u32le_def put_bytes_def)

lemma out_write_cstr_put:
  "0 \<notin> set xs \<Longrightarrow> out_write_cstr pf (xs @ 0 # ys) s = seq_r (map (put_bytes pf) (map (\<lambda>b. [b]) xs)) s"
  by (induction xs arbitrary: s) (auto simp: out_writeb_put bind_r_def split: sum.split)

section \<open>Properties\<close>

text \<open>A call of one of the writers, what it needs and what it should append.\<close>

datatype write_op =
    Write "u8 list" u32
  | Writeb u8
  | Write_u32le u32
  | Write_cstr "u8 list"

fun run_write :: "platform \<Rightarrow> write_op \<Rightarrow> out \<Rightarrow> out result" where
  "run_write pf (Write src count) = out_write pf src count"
| "run_write pf (Writeb b) = out_writeb pf b"
| "run_write pf (Write_u32le w) = out_write_u32le pf w"
| "run_write pf (Write_cstr cstr) = out_write_cstr pf cstr"

fun valid_write :: "write_op \<Rightarrow> bool" where
  "valid_write (Write src count) = (unat count \<le> length src)"
| "valid_write (Write_cstr cstr) = (0 \<in> set cstr)"
| "valid_write _ = True"

fun payload :: "write_op \<Rightarrow> u8 list" where
  "payload (Write src count) = take (unat count) src"
| "payload (Writeb b) = [b]"
| "payload (Write_u32le w) = le32 w"
| "payload (Write_cstr cstr) = takeWhile (\<lambda>c. c \<noteq> 0) cstr"

lemma split_cstr:
  "0 \<in> set cstr \<Longrightarrow> \<exists>ys. cstr = takeWhile (\<lambda>c. c \<noteq> 0) cstr @ 0 # ys" for cstr :: "u8 list"
  by (induction cstr) auto

lemma run_write_effect:
  assumes "valid_write w" "out_ok s" "room pf (length (payload w) + n) s"
  shows "\<exists>s'. run_write pf w s = Inr s' \<and> out_ok s' \<and> room pf n s' \<and> contents s' = contents s @ payload w"
proof (cases w)
  case (Write_cstr cstr)
  then obtain ys where "cstr = payload w @ 0 # ys" using assms(1) split_cstr by fastforce
  moreover have "0 \<notin> set (payload w)" using Write_cstr set_takeWhileD by fastforce
  ultimately show ?thesis
    using Write_cstr assms(2,3) bytes_of.put_all [where pf = pf and s = s and xss = "map (\<lambda>b. [b]) (payload w)" and n = n]
      out_write_cstr_put [of "payload w" pf ys s] by (simp add: comp_def)
qed (use assms put_bytes_effect in \<open>auto simp: out_write_put out_writeb_put out_write_u32le_put\<close>)

lemma run_writes_effect:
  assumes "\<forall>w \<in> set ws. valid_write w" "out_ok s" "room pf (length (concat (map payload ws))) s"
  shows "\<exists>s'. seq_r (map (run_write pf) ws) s = Inr s' \<and> out_ok s'
    \<and> contents s' = contents s @ concat (map payload ws)"
  using assms
proof (induction ws arbitrary: s)
  case (Cons w ws)
  then obtain t where t: "run_write pf w s = Inr t" "out_ok t"
      "room pf (length (concat (map payload ws))) t" "contents t = contents s @ payload w"
    using run_write_effect [of w s pf "length (concat (map payload ws))"] by auto
  with Cons.IH [of t] Cons.prems(1) show ?case by auto
qed simp

text \<open>
  Property C13. Any sequence of writes into a fresh buffer, up to 2 GiB in all, succeeds and
  leaves exactly the concatenation of what was written, whatever memory \<open>realloc\<close> hands
  out and whatever \<open>__builtin_clz(0)\<close> is (the first one-byte write computes it); the
  capacity is then 0 or a power of two of at least 8.
\<close>

theorem writes_concatenate:
  assumes "\<forall>c. grants pf c" "\<forall>w \<in> set ws. valid_write w"
    and "length (concat (map payload ws)) \<le> 2 ^ 31"
  shows "\<exists>s. seq_r (map (run_write pf) ws) zero_out = Inr s
    \<and> contents s = concat (map payload ws) \<and> unat (len s) = length (concat (map payload ws))
    \<and> out_ok s"
proof -
  have "room pf (length (concat (map payload ws))) zero_out"
    using assms by (simp add: room_def zero_out_def)
  from run_writes_effect [OF assms(2) out_ok_zero(1) this] obtain s
    where "seq_r (map (run_write pf) ws) zero_out = Inr s" "out_ok s"
      "contents s = concat (map payload ws)" by auto
  with length_contents [of s] show ?thesis by metis
qed

definition pf0 :: platform where
  "pf0 = \<lparr>clz_zero = 31, junk = (\<lambda>_ _. 0xAA), grants = (\<lambda>_. True)\<rparr>"

theorem writes_concatenate_witness:
  "\<exists>s. seq_r (map (run_write pf0) [Writeb 7, Write_u32le 0x01020304, Write_cstr [65, 66, 0, 67]])
      zero_out = Inr s \<and> contents s = [7, 4, 3, 2, 1, 65, 66]"
proof -
  have "le32 0x01020304 = [4, 3, 2, 1]" by (simp add: le32_def)
  then show ?thesis
    using writes_concatenate [of pf0 "[Writeb 7, Write_u32le 0x01020304, Write_cstr [65, 66, 0, 67]]"]
    by (auto simp: pf0_def)
qed

text \<open>
  Property C38. One byte more than 2 GiB: \<open>next_po2\<close> returns 1, \<open>out_resv\<close> shrinks the
  block to 8 bytes, and the byte is stored 2 GiB past its start.
\<close>

theorem out_resv_shrinks:
  assumes "grants pf 8" "out_ok s" "len s = 0x80000000" "cap s = 0x80000000"
  shows "(\<exists>t. out_resv pf 1 s = (0x80000000, t) \<and> cap t = 8 \<and> length (bytes t) = 8)
    \<and> (\<exists>e. out_writeb pf b s = Inl e)"
proof -
  have "next_po2 (clz_zero pf) 0x80000001 = 1" by (rule next_po2_big) simp
  moreover have "unat (max_po2 (clz_zero pf) 1 8) = 2 ^ max 0 3"
    by (rule max_po2_max) simp_all
  then have "max_po2 (clz_zero pf) 1 8 = 8" by (simp add: word_unat_eq_iff)
  ultimately show ?thesis
    using assms by (simp add: out_resv_def out_writeb_def poke_def realloc_def out_ok_def)
qed

theorem out_resv_shrinks_witness:
  "\<exists>e. out_writeb pf0 0 \<lparr>bytes = replicate (2 ^ 31) 0, len = 0x80000000, cap = 0x80000000\<rparr> = Inl e"
proof -
  have "out_ok \<lparr>bytes = replicate (2 ^ 31) 0, len = 0x80000000, cap = 0x80000000\<rparr>"
    unfolding out_ok_def by (auto intro!: exI [of _ 31])
  moreover have "grants pf0 8" by (simp add: pf0_def)
  ultimately show ?thesis
    using out_resv_shrinks [of pf0 "\<lparr>bytes = replicate (2 ^ 31) 0, len = 0x80000000, cap = 0x80000000\<rparr>" 0]
    by simp
qed

text \<open>
  Property C39. \<open>out_write_uleb128\<close> dereferences the byte it computes: where the first
  and the last 128 bytes of the address space are not mapped, it faults on every value.
\<close>

theorem uleb128_faults:
  assumes "\<forall>b :: u8. cells m (scast b) = None"
  shows "\<exists>a. out_write_uleb128 pf m val s = Inl (Segfault a)"
  using assms by (subst out_write_uleb128.simps) (simp add: load_u8_def Let_def)

theorem uleb128_faults_witness:
  "\<exists>a. out_write_uleb128 pf0 \<lparr>cells = (\<lambda>_. None), writable = (\<lambda>_. False)\<rparr> 300 zero_out
    = Inl (Segfault a)"
  by (rule uleb128_faults) simp

end
