(* ===== verification/Asm_Emit.thy ===== *)
theory Asm_Emit
  imports Out_Buf Isa_Spec
begin

text \<open>
  The assembler of bfc.c: every \<open>asm_\<close> function reserves four bytes of the buffer and
  assigns the members of a packed view of them.  The assignments of each, in the order of
  the source, are one function from the word that was there (uninitialised memory) to the
  word that is left; where they cover all 32 bits nothing of the old word remains.
\<close>

section \<open>The fields each instruction assigns\<close>

definition or_fields :: "u8 \<Rightarrow> u8 \<Rightarrow> u8 \<Rightarrow> u32 \<Rightarrow> u32" where
  "or_fields dest a b w =
     fput rs2 (ucast b) (fput rs1 (ucast a) (fput rd (ucast dest)
       (fput r_funct7 0 (fput funct3 0b110 (fput opcode 0b0110011 w)))))"

definition beq_fields :: "u8 \<Rightarrow> u8 \<Rightarrow> u32 \<Rightarrow> u32" where
  "beq_fields r1 r2 w =
     fput rs2 (ucast r2) (fput rs1 (ucast r1)
       (fput funct3 (branch_func_code branch_func_beq) (fput opcode (op_code op_branch) w)))"

text \<open>The shifts of an \<open>i16\<close> are arithmetic; the members keep the low bits.\<close>

definition patch_beq_fields :: "i16 \<Rightarrow> u32 \<Rightarrow> u32" where
  "patch_beq_fields offset w =
     fput b_imm_12 (scast (signed_drop_bit 12 offset))
       (fput b_imm_11 (scast (signed_drop_bit 11 offset))
       (fput b_imm_10_5 (scast (signed_drop_bit 5 offset))
       (fput b_imm_4_1 (scast (signed_drop_bit 1 offset)) w)))"

definition lbu_fields :: "u8 \<Rightarrow> u8 \<Rightarrow> u16 \<Rightarrow> u32 \<Rightarrow> u32" where
  "lbu_fields base dest offset w =
     fput i_imm_11_0 (ucast offset) (fput rd (ucast dest) (fput rs1 (ucast base)
       (fput funct3 (load_func_code load_func_lbu) (fput opcode (op_code op_load) w))))"

text \<open>The two parts of the offset are assigned the wrong way round.\<close>

definition sb_fields :: "u8 \<Rightarrow> u8 \<Rightarrow> u16 \<Rightarrow> u32 \<Rightarrow> u32" where
  "sb_fields base src offset w =
     fput opcode (op_code op_store) (fput funct3 (store_func_code store_func_sb)
       (fput s_imm_4_0 (ucast (drop_bit 5 offset AND 127))
       (fput s_imm_11_5 (ucast (offset AND 31))
       (fput rs1 (ucast base) (fput rs2 (ucast src) w)))))"

definition addi_fields :: "u8 \<Rightarrow> u8 \<Rightarrow> i16 \<Rightarrow> u32 \<Rightarrow> u32" where
  "addi_fields dest a imm w =
     fput i_imm_11_0 (scast imm) (fput rs1 (ucast a) (fput rd (ucast dest)
       (fput funct3 (imm_func_code imm_func_addi) (fput opcode (op_code op_imm) w))))"

definition lui_fields :: "u8 \<Rightarrow> i32 \<Rightarrow> u32 \<Rightarrow> u32" where
  "lui_fields dest imm_20 w =
     fput u_imm_31_12 imm_20 (fput rd (ucast dest) (fput opcode (op_code op_lui) w))"

definition ecall_fields :: "u32 \<Rightarrow> u32" where
  "ecall_fields w = fput unk_rest 0 (fput opcode (op_code op_system) w)"

text \<open>The jump that closes a loop, written through a structure of its own in bfc.c.\<close>

definition jal_fields :: "i16 \<Rightarrow> u32 \<Rightarrow> u32" where
  "jal_fields dist_from_chk w =
     fput (BF 12 20) (- scast dist_from_chk) (fput (BF 7 5) (ucast (reg_num rv_zero))
       (fput (BF 0 7) 0b1101111 w))"

section \<open>The asm functions\<close>

text \<open>Reserve, then assign through the pointer.\<close>

definition emit_by ::
  "('s \<Rightarrow> u32 \<times> 's) \<Rightarrow> (u32 \<Rightarrow> (u32 \<Rightarrow> u32) \<Rightarrow> 's \<Rightarrow> 's result) \<Rightarrow> (u32 \<Rightarrow> u32) \<Rightarrow> 's \<Rightarrow> 's result" where
  "emit_by reserve patch f s = (let (at, s) = reserve s in patch at f s)"

definition emit32 :: "platform \<Rightarrow> (u32 \<Rightarrow> u32) \<Rightarrow> out \<Rightarrow> out result" where
  "emit32 pf = emit_by (out_resv pf 4) update32"

definition asm_or :: "platform \<Rightarrow> u8 \<Rightarrow> u8 \<Rightarrow> u8 \<Rightarrow> out \<Rightarrow> out result" where
  "asm_or pf dest a b = emit32 pf (or_fields dest a b)"

definition asm_empty_beq :: "platform \<Rightarrow> u8 \<Rightarrow> u8 \<Rightarrow> out \<Rightarrow> out result" where
  "asm_empty_beq pf r1 r2 = emit32 pf (beq_fields r1 r2)"

definition patch_beq :: "u32 \<Rightarrow> i16 \<Rightarrow> out \<Rightarrow> out result" where
  "patch_beq insn offset = update32 insn (patch_beq_fields offset)"

definition asm_lbu :: "platform \<Rightarrow> u8 \<Rightarrow> u8 \<Rightarrow> u16 \<Rightarrow> out \<Rightarrow> out result" where
  "asm_lbu pf base dest offset = emit32 pf (lbu_fields base dest offset)"

definition asm_sb :: "platform \<Rightarrow> u8 \<Rightarrow> u8 \<Rightarrow> u16 \<Rightarrow> out \<Rightarrow> out result" where
  "asm_sb pf base src offset = emit32 pf (sb_fields base src offset)"

definition asm_addi :: "platform \<Rightarrow> u8 \<Rightarrow> u8 \<Rightarrow> i16 \<Rightarrow> out \<Rightarrow> out result" where
  "asm_addi pf dest a imm = emit32 pf (addi_fields dest a imm)"

definition asm_lui :: "platform \<Rightarrow> u8 \<Rightarrow> i32 \<Rightarrow> out \<Rightarrow> out result" where
  "asm_lui pf dest imm_20 = emit32 pf (lui_fields dest imm_20)"

text \<open>The only one that assigns the whole word at once, from a compound literal.\<close>

definition asm_ecall :: "platform \<Rightarrow> out \<Rightarrow> out result" where
  "asm_ecall pf s = (let (at, s) = out_resv pf 4 s in poke at (le32 (ecall_fields 0)) s)"

lemma asm_ecall_emit: "asm_ecall pf = emit32 pf (\<lambda>_. ecall_fields 0)"
  by (rule ext) (simp add: asm_ecall_def emit32_def emit_by_def update32_def peek32_def poke_def split: prod.split)

section \<open>The words that are left\<close>

text \<open>All but the conditional branch determine the whole word.\<close>

lemma bit_neg_junk: "(if k < 32 then P else bit w k) = (k < 32 \<and> P)" for w :: u32
  by (auto dest: bit_imp_le_length)

lemma fields_complete:
  "or_fields d a b w = or_fields d a b 0" "lbu_fields a d off w = lbu_fields a d off 0"
  "sb_fields a b off w = sb_fields a b off 0" "addi_fields d a imm w = addi_fields d a imm 0"
  "lui_fields d imm20 w = lui_fields d imm20 0" "ecall_fields w = ecall_fields 0"
  "jal_fields dist w = jal_fields dist 0"
  "patch_beq_fields off (beq_fields a b w) = patch_beq_fields off (beq_fields a b 0)"
  by (rule u32_eqI; simp add: all_less_Suc_numeral or_fields_def lbu_fields_def sb_fields_def
      addi_fields_def lui_fields_def ecall_fields_def jal_fields_def patch_beq_fields_def
      beq_fields_def layout)+

section \<open>The instructions they decode to\<close>

lemma fld_get: "fld hi lo w = bf_get lo (Suc hi - lo) w"
  by (simp add: fld_def bf_get_def)

lemmas field_simps = layout fld_get bf_get_set_same bf_get_set_other

lemma ucast_reg: "unat r < 32 \<Longrightarrow> ucast (take_bit 5 (ucast r :: u32)) = r" for r :: u8
proof -
  assume "unat r < 32"
  then have "unat (ucast (take_bit 5 (ucast r :: u32)) :: u8) = unat r"
    by (simp only: unsigned_ucast_eq unsigned_take_bit_eq) (simp add: take_bit_nat_eq_self)
  then show ?thesis by (simp add: word_unat_eq_iff)
qed

lemma sext_take: "0 < n \<Longrightarrow> n \<le> m \<Longrightarrow> sext n (take_bit m w) = sext n w"
  by (rule bit_word_eqI) (auto simp: bits bit_simps)

lemma decode_or: "unat d < 32 \<Longrightarrow> unat a < 32 \<Longrightarrow> unat b < 32 \<Longrightarrow>
   decode (or_fields d a b w) = Some (Op Or d a b)"
  by (simp add: decode_def or_fields_def field_simps ucast_reg alu_of_def)

lemma decode_lbu: "unat d < 32 \<Longrightarrow> unat a < 32 \<Longrightarrow>
   decode (lbu_fields a d off w) = Some (Load Lbu d a (sext 12 (ucast off)))"
  by (simp add: decode_def lbu_fields_def field_simps ucast_reg load_of_def imm_i_def sext_take)

lemma decode_addi: "unat d < 32 \<Longrightarrow> unat a < 32 \<Longrightarrow>
   decode (addi_fields d a imm w) = Some (Opi Add d a (sext 12 (scast imm)))"
  by (simp add: decode_def addi_fields_def field_simps ucast_reg opi_of_def opi_operand_def
      imm_i_def sext_take)

lemma decode_lui: "unat d < 32 \<Longrightarrow>
   decode (lui_fields d imm w) = Some (Lui d (push_bit 12 (take_bit 20 imm)))"
  by (simp add: decode_def lui_fields_def field_simps ucast_reg imm_u_def)

lemma decode_ecall: "ecall_fields w = 0x73" "decode (ecall_fields w) = Some Ecall"
proof -
  show "ecall_fields w = 0x73"
    by (rule u32_eqI) (simp add: all_less_Suc_numeral ecall_fields_def layout)
  then show "decode (ecall_fields w) = Some Ecall" by (simp add: decode_def fld_def)
qed

lemma decode_sb: "unat a < 32 \<Longrightarrow> unat r < 32 \<Longrightarrow>
   decode (sb_fields a r off w)
   = Some (Store Sb a r (sext 12 (push_bit 5 (take_bit 7 (ucast (off AND 31))) OR take_bit 5 (ucast (drop_bit 5 off AND 127)))))"
  by (simp add: decode_def sb_fields_def field_simps ucast_reg store_of_def imm_s_def)

lemma decode_beq: "unat a < 32 \<Longrightarrow> unat b < 32 \<Longrightarrow>
   decode (patch_beq_fields off (beq_fields a b w)) = Some (Branch Beq a b (sext 13 (scast off AND NOT 1)))"
proof -
  have "imm_b (patch_beq_fields off (beq_fields a b w)) = sext 13 (scast off AND NOT 1)"
    by (rule u32_eqI) (simp add: all_less_Suc_numeral imm_b_def bits bit_simps patch_beq_fields_def
        beq_fields_def layout, simp add: numeral_2_eq_2 numeral_3_eq_3)
  then show "unat a < 32 \<Longrightarrow> unat b < 32 \<Longrightarrow> ?thesis"
    by (simp add: decode_def patch_beq_fields_def beq_fields_def field_simps ucast_reg cond_of_def)
qed

text \<open>
  The jump that closes a loop stores its distance as one 20-bit number where the instruction
  has its bits permuted.
\<close>

lemma decode_jal:
  "decode (jal_fields dist w) = Some (Jal 0 (imm_j (push_bit 12 (- scast dist))))"
proof -
  have "imm_j (jal_fields dist w) = imm_j (push_bit 12 (- scast dist))"
    by (rule u32_eqI) (simp add: all_less_Suc_numeral imm_j_def bits bit_simps jal_fields_def)
  then show ?thesis by (simp add: decode_def jal_fields_def field_simps)
qed

section \<open>The buffer as a sequence of instruction words\<close>

text \<open>
  What the compiler relies on when it emits code: \<open>holds ws s\<close> says that the buffer \<open>s\<close>
  contains the words \<open>ws\<close>; reserving appends a word that is not known, a patch through an
  offset changes the word there and no other.
\<close>

locale code_buffer =
  fixes reserve :: "'s \<Rightarrow> u32 \<times> 's" and patch :: "u32 \<Rightarrow> (u32 \<Rightarrow> u32) \<Rightarrow> 's \<Rightarrow> 's result"
    and size :: "'s \<Rightarrow> u32" and holds :: "u32 list \<Rightarrow> 's \<Rightarrow> bool" and fits :: "nat \<Rightarrow> 's \<Rightarrow> bool"
  assumes reserve: "holds ws s \<Longrightarrow> fits (Suc n) s \<Longrightarrow>
      \<exists>w s'. reserve s = (size s, s') \<and> holds (ws @ [w]) s' \<and> fits n s'"
    and patch: "holds ws s \<Longrightarrow> fits n s \<Longrightarrow> i < length ws \<Longrightarrow>
      \<exists>s'. patch (of_nat (4 * i)) f s = Inr s' \<and> holds (ws[i := f (ws ! i)]) s' \<and> fits n s'"
    and size: "holds ws s \<Longrightarrow> size s = of_nat (4 * length ws)"
begin

lemma emit_any: "holds ws s \<Longrightarrow> fits (Suc n) s \<Longrightarrow>
    \<exists>w s'. emit_by reserve patch f s = Inr s' \<and> holds (ws @ [f w]) s' \<and> fits n s'"
proof -
  assume "holds ws s" "fits (Suc n) s"
  then obtain w t where t: "reserve s = (of_nat (4 * length ws), t)" "holds (ws @ [w]) t" "fits n t"
    using reserve size by metis
  from patch [OF t(2,3), of "length ws" f] obtain u
    where "patch (of_nat (4 * length ws)) f t = Inr u" "holds (ws @ [f w]) u" "fits n u"
    by auto
  with t show ?thesis by (auto simp: emit_by_def)
qed

text \<open>Functions that determine the whole word leave nothing unknown.\<close>

lemma emit_all: "holds ws s \<Longrightarrow> fits (length fs + n) s \<Longrightarrow> \<forall>f \<in> set fs. \<forall>w. f w = f 0 \<Longrightarrow>
    \<exists>s'. seq_r (map (emit_by reserve patch) fs) s = Inr s' \<and> holds (ws @ map (\<lambda>f. f 0) fs) s' \<and> fits n s'"
proof (induction fs arbitrary: ws s)
  case (Cons f fs)
  have "fits (Suc (length fs + n)) s" using Cons.prems(2) by simp
  from emit_any [OF Cons.prems(1) this, of f] obtain w t
    where t: "emit_by reserve patch f s = Inr t" "holds (ws @ [f w]) t" "fits (length fs + n) t" by blast
  have "f w = f 0" using Cons.prems(3) by simp
  with Cons.IH [OF t(2,3)] Cons.prems(3) t(1) show ?case by auto
qed auto

end

definition holds :: "u32 list \<Rightarrow> out \<Rightarrow> bool" where
  "holds ws s \<longleftrightarrow> out_ok s \<and> contents s = le32s ws"

definition room_words :: "platform \<Rightarrow> nat \<Rightarrow> out \<Rightarrow> bool" where
  "room_words pf n s \<longleftrightarrow> room pf (4 * n) s"

lemma holds_len: "holds ws s \<Longrightarrow> unat (len s) = 4 * length ws"
  using length_contents [of s] by (simp add: holds_def)

lemma length_4: "length xs = 4 \<Longrightarrow> \<exists>w. xs = le32 w"
proof -
  assume "length xs = 4"
  then obtain a b c d where "xs = [a, b, c, d]"
    by (auto simp: numeral_eq_Suc length_Suc_conv)
  then show ?thesis using le32_of_le32 by metis
qed

lemma holds_offset: "holds ws s \<Longrightarrow> i \<le> length ws \<Longrightarrow> unat (of_nat (4 * i) :: u32) = 4 * i"
  using holds_len [of ws s] unat_u32_less [of "len s"]
  by (simp only: unat_of_nat) (simp add: take_bit_nat_eq_self)

lemma holds_peek:
  assumes h: "holds ws s" and i: "i < length ws"
  shows "peek32 (of_nat (4 * i)) s = Inr (ws ! i)"
proof -
  have l: "unat (len s) = 4 * length ws" by (rule holds_len [OF h])
  have u: "unat (of_nat (4 * i) :: u32) = 4 * i" using holds_offset [OF h] i by simp
  have ok: "out_ok s" and c: "contents s = le32s ws" using h by (simp_all add: holds_def)
  have lb: "unat (len s) \<le> length (bytes s)" using ok by (simp add: out_ok_def word_le_nat_alt)
  have d: "drop (4 * i) (contents s) = le32 (ws ! i) @ le32s (drop (Suc i) ws)"
    using i by (simp add: c drop_le32s flip: Cons_nth_drop_Suc)
  have "bytes s ! (4 * i + k) = le32 (ws ! i) ! k" if "k < 4" for k
  proof -
    have "bytes s ! (4 * i + k) = drop (4 * i) (contents s) ! k"
      using that i l lb by (simp add: contents_def)
    then show ?thesis using that by (simp add: d nth_append)
  qed
  from this [of 0] this [of 1] this [of 2] this [of 3] show ?thesis
    using i l lb u of_le32_nth [of "ws ! i"] by (simp add: peek32_def)
qed

lemma holds_patch:
  assumes h: "holds ws s" and r: "room_words pf n s" and i: "i < length ws"
  shows "\<exists>s'. update32 (of_nat (4 * i)) f s = Inr s' \<and> holds (ws[i := f (ws ! i)]) s'
    \<and> room_words pf n s'"
proof -
  have l: "unat (len s) = 4 * length ws" by (rule holds_len [OF h])
  have u: "unat (of_nat (4 * i) :: u32) = 4 * i" using holds_offset [OF h] i by simp
  have ok: "out_ok s" and c: "contents s = le32s ws" using h by (simp_all add: holds_def)
  have "unat (of_nat (4 * i) :: u32) + length (le32 (f (ws ! i))) \<le> unat (len s)"
    using u l i by simp
  from poke_effect [OF ok this] obtain s' where s': "poke (of_nat (4 * i)) (le32 (f (ws ! i))) s = Inr s'"
      "out_ok s'" "len s' = len s"
      "contents s' = take (4 * i) (contents s) @ le32 (f (ws ! i)) @ drop (4 * i + 4) (contents s)"
    using u by auto
  have "drop (4 * i + 4) (contents s) = le32s (drop (Suc i) ws)"
    using drop_le32s [of "Suc i" ws] by (simp add: c add.commute)
  then have "contents s' = le32s (ws[i := f (ws ! i)])"
    using s'(4) i by (simp add: c take_le32s upd_conv_take_nth_drop)
  then show ?thesis
    using holds_peek [OF h i] s' r by (simp add: update32_def holds_def room_words_def room_def)
qed

lemma holds_reserve:
  assumes h: "holds ws s" and r: "room_words pf (Suc n) s"
  shows "\<exists>w s'. out_resv pf 4 s = (len s, s') \<and> holds (ws @ [w]) s' \<and> room_words pf n s'"
proof -
  have "room pf (unat (4 :: u32)) s" using r by (simp add: room_words_def room_def)
  moreover have "out_ok s" using h by (simp add: holds_def)
  ultimately obtain s' fresh where s': "out_resv pf 4 s = (len s, s')" "out_ok s'"
      "unat (len s') = unat (len s) + 4" "length fresh = 4" "contents s' = contents s @ fresh"
    using out_resv_effect [of s pf 4] by auto
  moreover obtain w where "fresh = le32 w" using length_4 [OF s'(4)] by blast
  ultimately have "holds (ws @ [w]) s'" "room_words pf n s'"
    using h r by (auto simp: holds_def room_words_def room_def)
  with s'(1) show ?thesis by blast
qed

interpretation code: code_buffer "out_resv pf 4" update32 len holds "room_words pf" for pf
proof
  show "len s = of_nat (4 * length ws)" if "holds ws s" for ws s
    using holds_len [OF that] by (metis of_nat_unat ucast_id)
qed (use holds_reserve holds_patch in blast)+

section \<open>Properties\<close>

datatype asm_call =
    Asm_or u8 u8 u8
  | Asm_lbu u8 u8 u16
  | Asm_sb u8 u8
  | Asm_addi u8 u8 i16
  | Asm_lui u8 i32
  | Asm_ecall

fun run_asm :: "platform \<Rightarrow> asm_call \<Rightarrow> out \<Rightarrow> out result" where
  "run_asm pf (Asm_or d a b) = asm_or pf d a b"
| "run_asm pf (Asm_lbu base d off) = asm_lbu pf base d off"
| "run_asm pf (Asm_sb base src) = asm_sb pf base src 0"
| "run_asm pf (Asm_addi d a imm) = asm_addi pf d a imm"
| "run_asm pf (Asm_lui d imm) = asm_lui pf d imm"
| "run_asm pf Asm_ecall = asm_ecall pf"

fun asm_fields :: "asm_call \<Rightarrow> u32 \<Rightarrow> u32" where
  "asm_fields (Asm_or d a b) = or_fields d a b"
| "asm_fields (Asm_lbu base d off) = lbu_fields base d off"
| "asm_fields (Asm_sb base src) = sb_fields base src 0"
| "asm_fields (Asm_addi d a imm) = addi_fields d a imm"
| "asm_fields (Asm_lui d imm) = lui_fields d imm"
| "asm_fields Asm_ecall = ecall_fields"

fun meaning :: "asm_call \<Rightarrow> insn" where
  "meaning (Asm_or d a b) = Op Or d a b"
| "meaning (Asm_lbu base d off) = Load Lbu d base (sext 12 (ucast off))"
| "meaning (Asm_sb base src) = Store Sb base src 0"
| "meaning (Asm_addi d a imm) = Opi Add d a (sext 12 (scast imm))"
| "meaning (Asm_lui d imm) = Lui d (push_bit 12 (take_bit 20 imm))"
| "meaning Asm_ecall = Ecall"

fun regs_valid :: "asm_call \<Rightarrow> bool" where
  "regs_valid (Asm_or d a b) = (unat d < 32 \<and> unat a < 32 \<and> unat b < 32)"
| "regs_valid (Asm_lbu base d off) = (unat base < 32 \<and> unat d < 32)"
| "regs_valid (Asm_sb base src) = (unat base < 32 \<and> unat src < 32)"
| "regs_valid (Asm_addi d a imm) = (unat d < 32 \<and> unat a < 32)"
| "regs_valid (Asm_lui d imm) = (unat d < 32)"
| "regs_valid Asm_ecall = True"

lemma run_asm_emit: "run_asm pf c = emit32 pf (asm_fields c)"
proof (cases c)
  case Asm_ecall
  have "ecall_fields = (\<lambda>_. ecall_fields 0)" using fields_complete(6) by (rule ext)
  then show ?thesis by (simp add: Asm_ecall asm_ecall_emit)
qed (simp_all add: asm_or_def asm_lbu_def asm_sb_def asm_addi_def asm_lui_def)

lemma asm_fields_complete: "asm_fields c w = asm_fields c 0"
  by (cases c; simp only: asm_fields.simps; rule fields_complete)

lemma decode_asm: "regs_valid c \<Longrightarrow> decode (asm_fields c w) = Some (meaning c)"
  by (cases c) (simp_all add: decode_or decode_lbu decode_sb decode_addi decode_lui decode_ecall(2)
      sext_def)

lemma run_asms:
  assumes "holds ws s" "room_words pf (length cs + n) s"
  shows "\<exists>s'. seq_r (map (run_asm pf) cs) s = Inr s'
    \<and> holds (ws @ map (\<lambda>c. asm_fields c 0) cs) s' \<and> room_words pf n s'"
proof -
  have eq: "map (run_asm pf) cs = map (emit_by (out_resv pf 4) update32) (map asm_fields cs)"
    by (simp add: run_asm_emit emit32_def)
  have "\<forall>f \<in> set (map asm_fields cs). \<forall>w. f w = f 0"
    using asm_fields_complete by auto
  from code.emit_all [OF assms(1) _ this] assms(2) show ?thesis
    unfolding eq by (simp add: comp_def)
qed

lemma holds_zero: "holds [] zero_out"
  by (simp add: holds_def)

text \<open>
  Property C11. The assembler is right: any sequence of its calls on registers 0 to 31 (with
  the store at displacement 0), into a fresh buffer and up to 2 GiB of code, appends one
  instruction word per call, which decodes to the instruction asked for; no bit of it is
  left to the uninitialised memory it was written over.
\<close>

theorem asm_calls_decode:
  assumes "\<forall>c. grants pf c" "4 * length cs \<le> 2 ^ 31" "\<forall>c \<in> set cs. regs_valid c"
  shows "\<exists>s ws. seq_r (map (run_asm pf) cs) zero_out = Inr s \<and> contents s = le32s ws
    \<and> map decode ws = map (\<lambda>c. Some (meaning c)) cs"
proof -
  have "room_words pf (length cs + 0) zero_out"
    using assms by (simp add: room_words_def room_def zero_out_def)
  from run_asms [OF holds_zero this] obtain s
    where "seq_r (map (run_asm pf) cs) zero_out = Inr s"
      "contents s = le32s (map (\<lambda>c. asm_fields c 0) cs)" by (auto simp: holds_def)
  moreover have "map decode (map (\<lambda>c. asm_fields c 0) cs) = map (\<lambda>c. Some (meaning c)) cs"
    using assms(3) decode_asm by simp
  ultimately show ?thesis by blast
qed

theorem asm_calls_decode_witness:
  "\<exists>s ws. seq_r (map (run_asm pf0) [Asm_lbu 9 5 0, Asm_addi 5 5 (- 1), Asm_sb 9 5]) zero_out = Inr s
    \<and> contents s = le32s ws
    \<and> map decode ws = [Some (Load Lbu 5 9 0), Some (Opi Add 5 5 (- 1)), Some (Store Sb 9 5 0)]"
proof -
  have "sext 12 (scast (- 1 :: i16)) = (- 1 :: u32)" "sext 12 0 = 0" by (simp_all add: sext_def)
  then show ?thesis
    using asm_calls_decode [of pf0 "[Asm_lbu 9 5 0, Asm_addi 5 5 (- 1), Asm_sb 9 5]"]
    by (simp add: pf0_def)
qed

text \<open>
  The stores the compiler does not need: with a displacement \<open>asm_sb\<close> exchanges its two
  halves.
\<close>

lemma unat_eqI: "unat v = unat w \<Longrightarrow> v = w"
  by (simp add: word_unat_eq_iff)

lemma swapped_offset:
  fixes off :: u16
  assumes "unat off < 1024"
  shows "sext 12 (push_bit 5 (take_bit 7 (ucast (off AND 31))) OR take_bit 5 (ucast (drop_bit 5 off AND 127)))
    = (of_nat (32 * (unat off mod 32) + unat off div 32) :: u32)"
proof -
  define lo hi :: u32 where "lo = take_bit 5 (ucast off)" and "hi = take_bit 5 (drop_bit 5 (ucast off))"
  have m: "(31 :: u16) = mask 5" "(127 :: u16) = mask 7" by (simp_all add: mask_eq_exp_minus_1)
  have p: "push_bit 5 (take_bit 7 (ucast (off AND 31))) OR take_bit 5 (ucast (drop_bit 5 off AND 127))
      = push_bit 5 lo OR hi"
    unfolding m lo_def hi_def by (rule bit_word_eqI) (auto simp: bit_simps)
  have sx: "sext 12 (push_bit 5 lo OR hi) = push_bit 5 lo OR hi"
    by (rule bit_word_eqI) (auto simp: bits bit_simps lo_def hi_def)
  have sum: "push_bit 5 lo OR hi = push_bit 5 lo + hi"
    by (rule disjunctive_add [symmetric]) (auto simp: bit_simps hi_def)
  have l: "push_bit 5 lo = of_nat (32 * (unat off mod 32))"
  proof -
    have "lo = of_nat (unat off mod 32)"
      by (rule unat_eqI) (simp only: lo_def unsigned_take_bit_eq unsigned_ucast_eq unat_of_nat,
        simp add: take_bit_eq_mod mod_mod_cancel)
    then show ?thesis by (simp add: push_bit_eq_mult)
  qed
  have h: "hi = of_nat (unat off div 32)"
    by (rule unat_eqI) (use assms in \<open>simp only: hi_def unsigned_take_bit_eq unat_drop_bit_eq unsigned_ucast_eq unat_of_nat,
        simp add: take_bit_eq_mod drop_bit_eq_div\<close>)
  show ?thesis unfolding p sx unfolding sum unfolding l h by simp
qed

text \<open>
  Property C37. \<open>asm_sb\<close> swaps the parts of its offset: asked for an offset below 1024 it
  emits a store with displacement \<open>32 * (offset mod 32) + offset div 32\<close>, which is the
  offset only when both parts are the same, as at 0.
\<close>

theorem asm_sb_swaps_offset:
  assumes "holds ws s" "room_words pf 1 s" "unat base < 32" "unat src < 32" "unat offset < 1024"
  shows "\<exists>w s'. asm_sb pf base src offset s = Inr s' \<and> holds (ws @ [w]) s'
    \<and> decode w = Some (Store Sb base src (of_nat (32 * (unat offset mod 32) + unat offset div 32)))"
proof -
  from code.emit_any [OF assms(1), of pf 0 "sb_fields base src offset"] assms(2) obtain w s'
    where "asm_sb pf base src offset s = Inr s'" "holds (ws @ [sb_fields base src offset w]) s'"
    by (auto simp: asm_sb_def emit32_def)
  then show ?thesis
    using decode_sb [OF assms(3,4)] swapped_offset [OF assms(5)] by metis
qed

theorem asm_sb_swaps_offset_witness:
  "\<exists>w s'. asm_sb pf0 9 5 4 zero_out = Inr s' \<and> holds ([] @ [w]) s'
    \<and> decode w = Some (Store Sb 9 5 128)"
  using asm_sb_swaps_offset [OF holds_zero, of pf0 9 5 4]
  by (simp add: room_words_def room_def pf0_def zero_out_def)

text \<open>The branch displacements that 13 bits hold.\<close>

lemma branch_offset:
  fixes off :: i16
  assumes "- 4096 \<le> sint off" "sint off < 4096" "even (sint off)"
  shows "sext 13 (scast off AND NOT 1) = (scast off :: u32)"
proof -
  have eq: "signed_take_bit 12 (sint off) = sint off"
    using assms(1,2) by (intro signed_take_bit_int_eq_self) simp_all
  have hi: "bit (sint off) k = bit (sint off) 12" if "12 \<le> k" for k
    using arg_cong [OF eq, of "\<lambda>i. bit i k"] that by (simp add: bit_signed_take_bit_iff min_def)
  have low: "\<not> bit (sint off) 0" using assms(3) by (simp add: bit_0)
  have s: "bit (scast off :: u32) k \<longleftrightarrow> k < 32 \<and> bit (sint off) k" for k
    by (auto simp: bit_signed_iff min_def)
  show ?thesis
  proof (rule bit_word_eqI)
    fix k
    show "bit (sext 13 (scast off AND NOT 1) :: u32) k = bit (scast off :: u32) k"
      using hi [of k] low by (cases "k < 13"; cases "k = 0") (auto simp: bits bit_simps s)
  qed
qed

text \<open>
  Property C12. Patching the placeholder branch completes it: for an even offset from -4096
  to 4094 the patched word decodes to a \<open>beq\<close> of the two registers with that offset, and no
  other word of the code changes.
\<close>

theorem patch_beq_completes:
  assumes "holds (ws @ beq_fields r1 r2 w0 # vs) s" "room_words pf 0 s" "unat r1 < 32" "unat r2 < 32"
    and "- 4096 \<le> sint offset" "sint offset < 4096" "even (sint offset)"
  shows "\<exists>w s'. patch_beq (of_nat (4 * length ws)) offset s = Inr s' \<and> holds (ws @ w # vs) s'
    \<and> decode w = Some (Branch Beq r1 r2 (scast offset))"
proof -
  from code.patch [OF assms(1,2), of "length ws" "patch_beq_fields offset"] obtain s'
    where "patch_beq (of_nat (4 * length ws)) offset s = Inr s'"
      "holds (ws @ patch_beq_fields offset (beq_fields r1 r2 w0) # vs) s'"
    by (auto simp: patch_beq_def)
  then show ?thesis
    using decode_beq [OF assms(3,4)] branch_offset [OF assms(5-7)] by metis
qed

theorem patch_beq_completes_witness:
  "\<exists>w s'. patch_beq 0 (- 8) \<lparr>bytes = le32 (beq_fields 5 0 0xffffffff) @ replicate 4 0, len = 4, cap = 8\<rparr> = Inr s'
    \<and> holds [w] s' \<and> decode w = Some (Branch Beq 5 0 (- 8))"
proof -
  let ?s = "\<lparr>bytes = le32 (beq_fields 5 0 0xffffffff) @ replicate 4 0, len = 4, cap = 8\<rparr>"
  have "holds ([] @ beq_fields 5 0 0xffffffff # []) ?s"
    unfolding holds_def out_ok_def contents_def by (auto intro!: exI [of _ 3])
  moreover have "room_words pf0 0 ?s" by (simp add: room_words_def room_def pf0_def)
  ultimately show ?thesis
    using patch_beq_completes [of "[]" 5 0 "0xffffffff" "[]" ?s pf0 "- 8"] by simp
qed

end
