(* ===== verification/Bf_Compile.thy ===== *)
theory Bf_Compile
  imports Asm_Emit
begin

text \<open>
  The one-pass brainfuck compiler of bfc.c (\<open>compile_stdin\<close>): it reads characters, appends
  instruction words, and keeps the open loops on a stack that lives in a second buffer.
  Against it stands the compiler a reader would write down, by recursion on the structure
  of the program (\<open>code\<close>).
\<close>

section \<open>Stacks in a buffer\<close>

definition out_write_u32lsb :: "platform \<Rightarrow> u32 \<Rightarrow> out \<Rightarrow> out result" where
  "out_write_u32lsb pf val s = (let (at, s) = out_resv pf 4 s in poke at (le32 val) s)"

definition push :: "platform \<Rightarrow> u32 \<Rightarrow> out \<Rightarrow> out result" where
  "push pf val s = out_write_u32lsb pf val s"

definition pop :: "out \<Rightarrow> (u32 \<times> out) result" where
  "pop s = (let s = s\<lparr>len := len s - 4\<rparr> in bind_r (peek32 (len s) s) (\<lambda>v. Inr (v, s)))"

record loop_info =
  check_offset :: u32
  beq_offset :: u32

definition push_loop :: "platform \<Rightarrow> loop_info \<Rightarrow> out \<Rightarrow> out result" where
  "push_loop pf info s =
     (let (at, s) = out_resv pf 8 s in
      bind_r (poke at (le32 (check_offset info)) s) (poke (at + 4) (le32 (beq_offset info))))"

definition pop_loop :: "out \<Rightarrow> (loop_info \<times> out) result" where
  "pop_loop s =
     (let s = s\<lparr>len := len s - 8\<rparr> in
      bind_r (peek32 (len s) s) (\<lambda>chk.
      bind_r (peek32 (len s + 4) s) (\<lambda>beq.
        Inr (\<lparr>check_offset = chk, beq_offset = beq\<rparr>, s))))"

section \<open>The compiler\<close>

record compiler =
  insns :: out
  loop_begin_stack :: out

definition on_insns :: "(out \<Rightarrow> out result) \<Rightarrow> compiler \<Rightarrow> compiler result" where
  "on_insns f s = bind_r (f (insns s)) (\<lambda>t. Inr (s\<lparr>insns := t\<rparr>))"

definition load_cell :: "platform \<Rightarrow> u8 \<Rightarrow> out \<Rightarrow> out result" where
  "load_cell pf dest = asm_lbu pf (reg_num rv_s1) dest 0"

definition store_cell :: "platform \<Rightarrow> u8 \<Rightarrow> out \<Rightarrow> out result" where
  "store_cell pf src = asm_sb pf (reg_num rv_s1) src 0"

definition open_loop :: "platform \<Rightarrow> compiler \<Rightarrow> compiler result" where
  "open_loop pf s =
     (let chk = len (insns s) in
      bind_r (on_insns (load_cell pf (reg_num rv_t0)) s) (\<lambda>s.
      bind_r (push_loop pf \<lparr>check_offset = chk, beq_offset = len (insns s)\<rparr> (loop_begin_stack s)) (\<lambda>st.
        on_insns (asm_empty_beq pf (reg_num rv_t0) (reg_num rv_zero)) (s\<lparr>loop_begin_stack := st\<rparr>))))"

definition close_loop :: "platform \<Rightarrow> compiler \<Rightarrow> compiler result" where
  "close_loop pf s =
     bind_r (pop_loop (loop_begin_stack s)) (\<lambda>(info, st).
       let s = s\<lparr>loop_begin_stack := st\<rparr>;
           (jal_offset, code) = out_resv_index pf 4 (insns s);
           loop_end = len code;
           dist_from_chk = ucast (loop_end - check_offset info) :: i16
       in bind_r (patch_beq (beq_offset info) dist_from_chk code) (\<lambda>code.
          bind_r (update32 jal_offset (jal_fields dist_from_chk) code) (\<lambda>code.
            Inr (s\<lparr>insns := code\<rparr>))))"

definition emit_add :: "platform \<Rightarrow> i16 \<Rightarrow> out \<Rightarrow> out result" where
  "emit_add pf n = seq_r [load_cell pf (reg_num rv_t0),
     asm_addi pf (reg_num rv_t0) (reg_num rv_t0) n, store_cell pf (reg_num rv_t0)]"

text \<open>The system call \<open>number\<close> on one byte at the cell; the source computes \<open>a0\<close> twice.\<close>

definition emit_syscall :: "platform \<Rightarrow> i16 \<Rightarrow> out \<Rightarrow> out result" where
  "emit_syscall pf number = seq_r [asm_addi pf (reg_num rv_a7) (reg_num rv_zero) number,
     asm_addi pf (reg_num rv_a0) (reg_num rv_zero) 1,
     asm_or pf (reg_num rv_a0) (reg_num rv_zero) (reg_num rv_s1),
     asm_addi pf (reg_num rv_a2) (reg_num rv_zero) 1, asm_ecall pf]"

definition emit_move :: "platform \<Rightarrow> i16 \<Rightarrow> out \<Rightarrow> out result" where
  "emit_move pf n = asm_addi pf (reg_num rv_s1) (reg_num rv_s1) n"

text \<open>The switch on one character.\<close>

definition compile_char :: "platform \<Rightarrow> u8 \<Rightarrow> compiler \<Rightarrow> compiler result" where
  "compile_char pf c s =
     (if c = 91 then open_loop pf s
      else if c = 93 then close_loop pf s
      else if c = 43 then on_insns (emit_add pf 1) s
      else if c = 45 then on_insns (emit_add pf (- 1)) s
      else if c = 46 then on_insns (emit_syscall pf 64) s
      else if c = 44 then on_insns (emit_syscall pf 63) s
      else if c = 62 then on_insns (emit_move pf 1) s
      else if c = 60 then on_insns (emit_move pf (- 1)) s
      else Inr s)"

text \<open>
  The loop over \<open>getchar\<close>.  The result is kept in a \<open>char\<close>, signed on the targets of the
  project, so the byte 255 reads as the end of the input.
\<close>

fun compile_input :: "platform \<Rightarrow> u8 list \<Rightarrow> compiler \<Rightarrow> compiler result" where
  "compile_input pf [] s = Inr s"
| "compile_input pf (c # cs) s =
     (if c = 255 then Inr s else bind_r (compile_char pf c s) (compile_input pf cs))"

definition compile_prologue :: "platform \<Rightarrow> out \<Rightarrow> out result" where
  "compile_prologue pf = seq_r [asm_lui pf (reg_num rv_s1) (ucast (reg_num rv_zero)),
     asm_addi pf (reg_num rv_s1) (reg_num rv_zero) 0]"

definition compile_epilogue :: "platform \<Rightarrow> out \<Rightarrow> out result" where
  "compile_epilogue pf = seq_r [asm_addi pf (reg_num rv_a7) (reg_num rv_zero) 93,
     asm_addi pf (reg_num rv_a0) (reg_num rv_zero) 0, asm_ecall pf]"

definition compile_stdin :: "platform \<Rightarrow> u8 list \<Rightarrow> out \<Rightarrow> out result" where
  "compile_stdin pf input s =
     bind_r (compile_prologue pf s) (\<lambda>s.
     bind_r (compile_input pf input \<lparr>insns = s, loop_begin_stack = zero_out\<rparr>) (\<lambda>c.
       compile_epilogue pf (insns c)))"

section \<open>The contract of a stack\<close>

locale lifo =
  fixes push :: "'e \<Rightarrow> 's \<Rightarrow> 's result" and pop :: "'s \<Rightarrow> ('e \<times> 's) result"
    and stacked :: "'e list \<Rightarrow> 's \<Rightarrow> bool" and fits :: "nat \<Rightarrow> 's \<Rightarrow> bool"
  assumes push: "stacked es s \<Longrightarrow> fits (Suc n) s \<Longrightarrow>
      \<exists>s'. push e s = Inr s' \<and> stacked (es @ [e]) s' \<and> fits n s'"
    and pop: "stacked (es @ [e]) s \<Longrightarrow> fits n s \<Longrightarrow>
      \<exists>s'. pop s = Inr (e, s') \<and> stacked es s' \<and> fits (Suc n) s'"
    and pop_empty: "stacked [] s \<Longrightarrow> \<exists>h. pop s = Inl h"
begin

lemma push_pop: "stacked es s \<Longrightarrow> fits (Suc n) s \<Longrightarrow>
    \<exists>s' s''. push e s = Inr s' \<and> pop s' = Inr (e, s'') \<and> stacked es s'' \<and> fits (Suc n) s''"
  using push pop by metis

lemma push_all: "stacked es s \<Longrightarrow> fits (length ds + n) s \<Longrightarrow>
    \<exists>s'. seq_r (map push ds) s = Inr s' \<and> stacked (es @ ds) s' \<and> fits n s'"
proof (induction ds arbitrary: es s)
  case (Cons d ds)
  have "fits (Suc (length ds + n)) s" using Cons.prems(2) by simp
  from push [OF Cons.prems(1) this, of d] obtain t
    where "push d s = Inr t" "stacked (es @ [d]) t" "fits (length ds + n) t" by blast
  with Cons.IH [of "es @ [d]" t] show ?case by auto
qed auto

end

lemma peek32_len [simp]: "peek32 at (s\<lparr>len := n\<rparr>) = peek32 at s"
  by (simp add: peek32_def)

text \<open>Cutting words off the end by moving \<open>len\<close> back.\<close>

lemma holds_shrink:
  assumes "holds (ws @ vs) s"
  shows "holds ws (s\<lparr>len := of_nat (4 * length ws)\<rparr>)"
    and "len s - of_nat (4 * length vs) = of_nat (4 * length ws)"
proof -
  have l: "unat (len s) = 4 * length ws + 4 * length vs" using holds_len [OF assms] by simp
  have u: "unat (of_nat (4 * length ws) :: u32) = 4 * length ws"
    using holds_offset [OF assms, of "length ws"] by simp
  have "take (4 * length ws) (contents s) = le32s ws"
    using assms by (simp add: holds_def)
  moreover have "contents (s\<lparr>len := of_nat (4 * length ws)\<rparr>) = take (4 * length ws) (contents s)"
    using l u by (simp add: contents_def min_def)
  ultimately show "holds ws (s\<lparr>len := of_nat (4 * length ws)\<rparr>)"
    using assms l u by (auto simp: holds_def out_ok_def word_le_nat_alt)
  have "len s = of_nat (unat (len s))" by simp
  then show "len s - of_nat (4 * length vs) = of_nat (4 * length ws)"
    unfolding l by simp
qed

lemma holds_push:
  assumes "holds ws s" "room_words pf (length vs + n) s"
  shows "\<exists>s'. put_bytes pf (le32s vs) s = Inr s' \<and> holds (ws @ vs) s' \<and> room_words pf n s'"
proof -
  have "room pf (length (le32s vs) + 4 * n) s" using assms(2) by (simp add: room_words_def)
  moreover have "out_ok s" using assms(1) by (simp add: holds_def)
  ultimately show ?thesis
    using put_bytes_effect [of s pf "le32s vs" "4 * n"] assms(1)
    by (auto simp: holds_def room_words_def)
qed

text \<open>Nothing is below the bottom of a stack: the offset wraps to the end of the address space.\<close>

lemma pop_below:
  assumes "holds [] s" "0 < k" "k \<le> 8"
  shows "\<exists>h. peek32 (len s - of_nat k) s = Inl h"
proof -
  have z: "len s = 0" using holds_len [OF assms(1)] by (simp add: word_unat_eq_iff)
  obtain b where "length (bytes s) = 2 ^ b \<and> b < 32 \<or> length (bytes s) = 0"
    using assms(1) unat_power_u32 by (auto simp: holds_def out_ok_def)
  moreover have "(2 :: nat) ^ b \<le> 2 ^ 31" if "b < 32" using that by (intro power_increasing) auto
  ultimately have "length (bytes s) \<le> 2 ^ 31" by auto
  moreover have "(- of_nat k :: u32) = of_nat (4294967296 - k)"
    using assms(3) by (simp add: of_nat_diff)
  then have "unat (- of_nat k :: u32) = 4294967296 - k"
    using assms(2,3) by (simp only: unat_of_nat) (simp add: take_bit_nat_eq_self)
  ultimately show ?thesis using assms(3) z by (simp add: peek32_def)
qed

interpretation words: lifo "push pf" pop holds "room_words pf" for pf
proof
  fix ws s n w
  assume "holds ws s" "room_words pf (Suc n) s"
  then show "\<exists>s'. push pf w s = Inr s' \<and> holds (ws @ [w]) s' \<and> room_words pf n s'"
    using holds_push [of ws s pf "[w]" n] by (simp add: push_def out_write_u32lsb_def put_bytes_def)
next
  fix ws s n w
  assume h: "holds (ws @ [w]) s" "room_words pf n s"
  have "peek32 (len s - 4) s = Inr w"
    using holds_peek [OF h(1), of "length ws"] holds_shrink(2) [OF h(1)] by simp
  then show "\<exists>s'. pop s = Inr (w, s') \<and> holds ws s' \<and> room_words pf (Suc n) s'"
    using holds_shrink [OF h(1)] holds_len [OF h(1)] holds_len [OF holds_shrink(1) [OF h(1)]] h(2)
    by (simp add: pop_def Let_def room_words_def room_def)
next
  fix s assume "holds [] s"
  then show "\<exists>h. pop s = Inl h" using pop_below [of s 4] by (auto simp: pop_def Let_def)
qed

text \<open>The entries of the loop stack as words.\<close>

definition loop_words :: "loop_info list \<Rightarrow> u32 list" where
  "loop_words es = concat (map (\<lambda>e. [check_offset e, beq_offset e]) es)"

lemma loop_words_simps [simp]:
  "loop_words [] = []" "loop_words (es @ [e]) = loop_words es @ [check_offset e, beq_offset e]"
  by (simp_all add: loop_words_def)

lemma push_loop_effect:
  assumes h: "holds ws s" and r: "room_words pf (2 + n) s"
  shows "\<exists>s'. push_loop pf e s = Inr s' \<and> holds (ws @ [check_offset e, beq_offset e]) s'
    \<and> room_words pf n s'"
proof -
  have ok: "out_ok s" and c: "contents s = le32s ws" using h by (simp_all add: holds_def)
  have "room pf (unat (8 :: u32)) s" using r by (simp add: room_words_def room_def)
  from out_resv_effect [OF ok this] obtain t fresh where t: "out_resv pf 8 s = (len s, t)"
      "out_ok t" "unat (len t) = unat (len s) + 8" "length fresh = 8" "contents t = contents s @ fresh"
    by auto
  have "unat (len s) + length (le32 (check_offset e)) \<le> unat (len t)" using t(3) by simp
  from poke_effect [OF t(2) this] obtain u
    where u: "poke (len s) (le32 (check_offset e)) t = Inr u" "out_ok u" "len u = len t"
      "contents u = contents s @ le32 (check_offset e) @ drop 4 fresh"
    using t(5) length_contents [OF ok] by auto
  have l: "unat (len s + 4) = unat (len s) + 4"
    using t(3) unat_u32_less [of "len t"] by (simp add: unat_word_ariths take_bit_nat_eq_self)
  then have "unat (len s + 4) + length (le32 (beq_offset e)) \<le> unat (len u)" using t(3) u(3) by simp
  from poke_effect [OF u(2) this] obtain v
    where v: "poke (len s + 4) (le32 (beq_offset e)) u = Inr v" "out_ok v" "len v = len u"
      "contents v = contents s @ le32 (check_offset e) @ le32 (beq_offset e)"
    using u(4) l length_contents [OF ok] t(4) by auto
  have "holds (ws @ [check_offset e, beq_offset e]) v" using v c by (simp add: holds_def)
  moreover have "room_words pf n v"
    using r t(3) u(3) v(3) by (simp add: room_words_def room_def)
  ultimately show ?thesis using t(1) u(1) v(1) by (simp add: push_loop_def)
qed

interpretation loops: lifo "push_loop pf" pop_loop "\<lambda>es. holds (loop_words es)"
  "\<lambda>n. room_words pf (2 * n)" for pf
proof
  fix es s n e
  assume "holds (loop_words es) s" "room_words pf (2 * Suc n) s"
  then show "\<exists>s'. push_loop pf e s = Inr s' \<and> holds (loop_words (es @ [e])) s'
      \<and> room_words pf (2 * n) s'"
    using push_loop_effect [of "loop_words es" s pf "2 * n" e] by simp
next
  fix es s n e
  assume h: "holds (loop_words (es @ [e])) s" "room_words pf (2 * n) s"
  let ?ws = "loop_words es" and ?vs = "[check_offset e, beq_offset e]"
  have h': "holds (?ws @ ?vs) s" using h(1) by simp
  have k: "len s - 8 = of_nat (4 * length ?ws)" using holds_shrink(2) [OF h'] by simp
  have "peek32 (len s - 8) s = Inr (check_offset e)"
    using holds_peek [OF h', of "length ?ws"] by (simp add: k)
  moreover have "peek32 (len s - 8 + 4) s = Inr (beq_offset e)"
    using holds_peek [OF h', of "Suc (length ?ws)"] by (simp add: k nth_append add.commute)
  ultimately show "\<exists>s'. pop_loop s = Inr (e, s') \<and> holds ?ws s' \<and> room_words pf (2 * Suc n) s'"
    using holds_shrink(1) [OF h'] holds_len [OF h'] holds_len [OF holds_shrink(1) [OF h']] h(2) k
    by (simp add: pop_loop_def Let_def room_words_def room_def)
next
  fix s assume "holds (loop_words []) s"
  then show "\<exists>h. pop_loop s = Inl h" using pop_below [of s 8] by (auto simp: pop_loop_def Let_def)
qed

section \<open>The compiler by recursion on the program\<close>

datatype bf =
    Plus | Minus | Dot | Comma | Gt | Lt
  | Remark u8
  | Loop "bf list"

text \<open>The text of a program, and which characters are remarks.\<close>

fun bf_text :: "bf \<Rightarrow> u8 list" where
  "bf_text Plus = [43]" | "bf_text Minus = [45]" | "bf_text Dot = [46]" | "bf_text Comma = [44]"
| "bf_text Gt = [62]" | "bf_text Lt = [60]" | "bf_text (Remark c) = [c]"
| "bf_text (Loop ps) = 91 # concat (map bf_text ps) @ [93]"

fun remarks_ok :: "bf \<Rightarrow> bool" where
  "remarks_ok (Remark c) = (c \<notin> {91, 93, 43, 45, 46, 44, 62, 60, 255})"
| "remarks_ok (Loop ps) = (\<forall>p \<in> set ps. remarks_ok p)"
| "remarks_ok _ = True"

definition lbu_t0 :: u32 where "lbu_t0 = lbu_fields (reg_num rv_s1) (reg_num rv_t0) 0 0"
definition sb_t0 :: u32 where "sb_t0 = sb_fields (reg_num rv_s1) (reg_num rv_t0) 0 0"
definition addi_word :: "rv32_abi_reg \<Rightarrow> rv32_abi_reg \<Rightarrow> i16 \<Rightarrow> u32" where
  "addi_word d a n = addi_fields (reg_num d) (reg_num a) n 0"

definition add_code :: "i16 \<Rightarrow> u32 list" where
  "add_code n = [lbu_t0, addi_word rv_t0 rv_t0 n, sb_t0]"

definition syscall_code :: "i16 \<Rightarrow> u32 list" where
  "syscall_code n = [addi_word rv_a7 rv_zero n, addi_word rv_a0 rv_zero 1,
     or_fields (reg_num rv_a0) (reg_num rv_zero) (reg_num rv_s1) 0,
     addi_word rv_a2 rv_zero 1, ecall_fields 0]"

text \<open>
  A loop is its test, its body and the jump; the distance is that from the test to the end,
  cut to 16 bits.
\<close>

definition loop_distance :: "nat \<Rightarrow> i16" where
  "loop_distance body = of_nat (4 * (body + 3))"

definition loop_code :: "u32 list \<Rightarrow> u32 list" where
  "loop_code body =
     [lbu_t0, patch_beq_fields (loop_distance (length body)) (beq_fields (reg_num rv_t0) (reg_num rv_zero) 0)]
     @ body @ [jal_fields (loop_distance (length body)) 0]"

fun code :: "bf \<Rightarrow> u32 list" where
  "code Plus = add_code 1"
| "code Minus = add_code (- 1)"
| "code Dot = syscall_code 64"
| "code Comma = syscall_code 63"
| "code Gt = [addi_word rv_s1 rv_s1 1]"
| "code Lt = [addi_word rv_s1 rv_s1 (- 1)]"
| "code (Remark c) = []"
| "code (Loop ps) = loop_code (concat (map code ps))"

definition prologue :: "u32 list" where
  "prologue = [lui_fields (reg_num rv_s1) 0 0, addi_word rv_s1 rv_zero 0]"

definition epilogue :: "u32 list" where
  "epilogue = [addi_word rv_a7 rv_zero 93, addi_word rv_a0 rv_zero 0, ecall_fields 0]"

definition program_code :: "bf list \<Rightarrow> u32 list" where
  "program_code ps = prologue @ concat (map code ps) @ epilogue"

section \<open>The one-pass compiler implements it\<close>

text \<open>The state between two characters: the code so far, the open loops, and the room left.\<close>

definition ready :: "platform \<Rightarrow> u32 list \<Rightarrow> loop_info list \<Rightarrow> nat \<Rightarrow> compiler \<Rightarrow> bool" where
  "ready pf ws es n c \<longleftrightarrow> holds ws (insns c) \<and> room_words pf n (insns c)
     \<and> holds (loop_words es) (loop_begin_stack c) \<and> room_words pf n (loop_begin_stack c)"

lemma room_words_le: "room_words pf m s \<Longrightarrow> n \<le> m \<Longrightarrow> room_words pf n s"
  by (auto simp: room_words_def intro: room_le)

lemma ready_le: "ready pf ws es m c \<Longrightarrow> n \<le> m \<Longrightarrow> ready pf ws es n c"
  by (auto simp: ready_def intro: room_words_le)

lemma seq_r_single [simp]: "seq_r [f] = f"
  by (rule ext) (simp add: bind_r_def split: sum.split)

text \<open>The straight-line commands as calls of the assembler.\<close>

definition add_calls :: "i16 \<Rightarrow> asm_call list" where
  "add_calls n = [Asm_lbu (reg_num rv_s1) (reg_num rv_t0) 0,
     Asm_addi (reg_num rv_t0) (reg_num rv_t0) n, Asm_sb (reg_num rv_s1) (reg_num rv_t0)]"

definition syscall_calls :: "i16 \<Rightarrow> asm_call list" where
  "syscall_calls n = [Asm_addi (reg_num rv_a7) (reg_num rv_zero) n,
     Asm_addi (reg_num rv_a0) (reg_num rv_zero) 1,
     Asm_or (reg_num rv_a0) (reg_num rv_zero) (reg_num rv_s1),
     Asm_addi (reg_num rv_a2) (reg_num rv_zero) 1, Asm_ecall]"

lemma emit_calls:
  "emit_add pf n = seq_r (map (run_asm pf) (add_calls n))"
  "emit_syscall pf n = seq_r (map (run_asm pf) (syscall_calls n))"
  "emit_move pf n = seq_r (map (run_asm pf) [Asm_addi (reg_num rv_s1) (reg_num rv_s1) n])"
  by (simp_all add: emit_add_def load_cell_def store_cell_def add_calls_def emit_syscall_def
      syscall_calls_def emit_move_def del: seq_r.simps)

lemma calls_code:
  "map (\<lambda>c. asm_fields c 0) (add_calls n) = add_code n"
  "map (\<lambda>c. asm_fields c 0) (syscall_calls n) = syscall_code n"
  "length (add_calls n) = 3" "length (add_code n) = 3"
  "length (syscall_calls n) = 5" "length (syscall_code n) = 5"
  by (simp_all add: add_calls_def add_code_def syscall_calls_def syscall_code_def lbu_t0_def
      sb_t0_def addi_word_def)

lemma ready_calls:
  assumes "ready pf ws es (length cs + n) c"
  shows "\<exists>c'. on_insns (seq_r (map (run_asm pf) cs)) c = Inr c'
    \<and> ready pf (ws @ map (\<lambda>c. asm_fields c 0) cs) es n c'"
proof -
  have "holds ws (insns c)" "room_words pf (length cs + n) (insns c)"
    using assms by (simp_all add: ready_def)
  from run_asms [OF this] obtain t where "seq_r (map (run_asm pf) cs) (insns c) = Inr t"
      "holds (ws @ map (\<lambda>c. asm_fields c 0) cs) t" "room_words pf n t" by blast
  with assms show ?thesis by (auto simp: on_insns_def ready_def intro: room_words_le)
qed

lemma open_loop_effect:
  assumes "ready pf ws es (2 + n) c"
  shows "\<exists>w c'. open_loop pf c = Inr c'
    \<and> ready pf (ws @ [lbu_t0, beq_fields (reg_num rv_t0) (reg_num rv_zero) w])
        (es @ [\<lparr>check_offset = of_nat (4 * length ws), beq_offset = of_nat (4 * Suc (length ws))\<rparr>]) n c'"
proof -
  let ?info = "\<lparr>check_offset = of_nat (4 * length ws), beq_offset = of_nat (4 * Suc (length ws))\<rparr>"
  have h: "holds ws (insns c)" "room_words pf (1 + Suc n) (insns c)"
    and st: "holds (loop_words es) (loop_begin_stack c)" "room_words pf (2 + n) (loop_begin_stack c)"
    using assms by (auto simp: ready_def)
  have chk: "len (insns c) = of_nat (4 * length ws)" using code.size [OF h(1)] .
  have "load_cell pf (reg_num rv_t0) = seq_r (map (run_asm pf) [Asm_lbu (reg_num rv_s1) (reg_num rv_t0) 0])"
    by (simp add: load_cell_def)
  with run_asms [OF h(1), of pf "[Asm_lbu (reg_num rv_s1) (reg_num rv_t0) 0]" "Suc n"] h(2)
  obtain t where t: "load_cell pf (reg_num rv_t0) (insns c) = Inr t" "holds (ws @ [lbu_t0]) t"
    "room_words pf (Suc n) t" by (auto simp: lbu_t0_def)
  have beq: "len t = of_nat (4 * Suc (length ws))" using code.size [OF t(2)] by simp
  from push_loop_effect [OF st, of ?info] obtain st'
    where st': "push_loop pf ?info (loop_begin_stack c) = Inr st'"
      "holds (loop_words (es @ [?info])) st'" "room_words pf n st'" by auto
  from code.emit_any [OF t(2,3), of "beq_fields (reg_num rv_t0) (reg_num rv_zero)"] obtain w u
    where u: "asm_empty_beq pf (reg_num rv_t0) (reg_num rv_zero) t = Inr u"
      "holds (ws @ [lbu_t0, beq_fields (reg_num rv_t0) (reg_num rv_zero) w]) u" "room_words pf n u"
    by (auto simp: asm_empty_beq_def emit32_def)
  have "open_loop pf c = Inr (c\<lparr>insns := u, loop_begin_stack := st'\<rparr>)"
    using t(1) st'(1) u(1) chk beq by (simp add: open_loop_def on_insns_def Let_def)
  with st' u show ?thesis by (auto simp: ready_def)
qed

lemma ucast_of_nat_16: "(ucast (of_nat n :: u32) :: i16) = of_nat n"
  by (rule unat_eqI) (simp add: unsigned_ucast_eq unat_of_nat take_bit_eq_mod mod_mod_cancel)

lemma close_loop_effect:
  assumes "ready pf (ws @ [lbu_t0, beq_fields (reg_num rv_t0) (reg_num rv_zero) w] @ body)
      (es @ [\<lparr>check_offset = of_nat (4 * length ws), beq_offset = of_nat (4 * Suc (length ws))\<rparr>]) (Suc n) c"
  shows "\<exists>c'. close_loop pf c = Inr c' \<and> ready pf (ws @ loop_code body) es n c'"
proof -
  let ?info = "\<lparr>check_offset = of_nat (4 * length ws), beq_offset = of_nat (4 * Suc (length ws))\<rparr>"
  let ?beq = "beq_fields (reg_num rv_t0) (reg_num rv_zero)"
  let ?ws = "ws @ [lbu_t0, ?beq w] @ body" and ?d = "loop_distance (length body)"
  have h: "holds ?ws (insns c)" "room_words pf (Suc n) (insns c)"
    and st: "holds (loop_words (es @ [?info])) (loop_begin_stack c)" "room_words pf (Suc n) (loop_begin_stack c)"
    using assms unfolding ready_def by blast+
  have "room_words pf (2 * 0) (loop_begin_stack c)" using st(2) room_words_le by force
  from loops.pop [OF st(1) this] obtain st'
    where st': "pop_loop (loop_begin_stack c) = Inr (?info, st')" "holds (loop_words es) st'" by blast
  have rst: "room_words pf n st'"
    using st(2) holds_len [OF st(1)] holds_len [OF st'(2)] by (simp add: room_words_def room_def)
  from code.reserve [OF h] obtain v t where t: "out_resv pf 4 (insns c) = (len (insns c), t)"
      "holds (?ws @ [v]) t" "room_words pf n t" by blast
  have jal: "len (insns c) = of_nat (4 * length ?ws)" using code.size [OF h(1)] .
  have "len t = of_nat (4 * length (?ws @ [v]))" using code.size [OF t(2)] .
  then have "len t - of_nat (4 * length ws) = of_nat (4 * (length body + 3))"
    by (simp add: algebra_simps)
  then have d: "(ucast (len t - of_nat (4 * length ws)) :: i16) = ?d"
    by (simp only: ucast_of_nat_16 loop_distance_def)
  from code.patch [OF t(2,3), of "Suc (length ws)" "patch_beq_fields ?d"] obtain u
    where u: "patch_beq (of_nat (4 * Suc (length ws))) ?d t = Inr u"
      "holds (ws @ [lbu_t0, patch_beq_fields ?d (?beq w)] @ body @ [v]) u" "room_words pf n u"
    by (auto simp: patch_beq_def nth_append list_update_append)
  from code.patch [OF u(2,3), of "length ?ws" "jal_fields ?d"] obtain x
    where x: "update32 (of_nat (4 * length ?ws)) (jal_fields ?d) u = Inr x"
      "holds (ws @ [lbu_t0, patch_beq_fields ?d (?beq w)] @ body @ [jal_fields ?d v]) x" "room_words pf n x"
    by (auto simp: nth_append list_update_append)
  have "close_loop pf c = Inr (c\<lparr>insns := x, loop_begin_stack := st'\<rparr>)"
    using st'(1) t(1) u(1) x(1) d jal by (simp add: close_loop_def out_resv_index_def Let_def)
  moreover have "ws @ [lbu_t0, patch_beq_fields ?d (?beq w)] @ body @ [jal_fields ?d v] = ws @ loop_code body"
    unfolding loop_code_def
    using fields_complete(7) [of ?d v] fields_complete(8) [of ?d "reg_num rv_t0" "reg_num rv_zero" w] by simp
  ultimately show ?thesis using st' rst x by (auto simp: ready_def)
qed

text \<open>What compiling the text \<open>t\<close> does: it appends \<open>ws'\<close>, whatever comes after it.\<close>

definition compiles :: "platform \<Rightarrow> u8 list \<Rightarrow> u32 list \<Rightarrow> bool" where
  "compiles pf t ws' \<longleftrightarrow> (\<forall>ws es n c. ready pf ws es (length ws' + n) c \<longrightarrow>
     (\<exists>c'. (\<forall>rest. compile_input pf (t @ rest) c = compile_input pf rest c')
       \<and> ready pf (ws @ ws') es n c'))"

lemma compilesD:
  assumes "compiles pf t ws'" "ready pf ws es (length ws' + n) c"
  obtains c' where "\<And>rest. compile_input pf (t @ rest) c = compile_input pf rest c'"
    "ready pf (ws @ ws') es n c'"
  using assms unfolding compiles_def by blast

lemma compiles_nil: "compiles pf [] []"
  by (auto simp: compiles_def)

lemma compiles_append:
  assumes "compiles pf t ws'" "compiles pf u vs'" shows "compiles pf (t @ u) (ws' @ vs')"
  unfolding compiles_def
proof (intro allI impI)
  fix ws es n c assume "ready pf ws es (length (ws' @ vs') + n) c"
  then have "ready pf ws es (length ws' + (length vs' + n)) c" by (simp add: add.assoc)
  from compilesD [OF assms(1) this] obtain d
    where d: "\<And>rest. compile_input pf (t @ rest) c = compile_input pf rest d"
      "ready pf (ws @ ws') es (length vs' + n) d" by blast
  from compilesD [OF assms(2) d(2)] obtain e
    where "\<And>rest. compile_input pf (u @ rest) d = compile_input pf rest e"
      "ready pf ((ws @ ws') @ vs') es n e" by blast
  with d(1) show "\<exists>c'. (\<forall>rest. compile_input pf ((t @ u) @ rest) c = compile_input pf rest c')
      \<and> ready pf (ws @ ws' @ vs') es n c'" by auto
qed

lemma compiles_concat:
  "(\<And>p. p \<in> set ps \<Longrightarrow> compiles pf (f p) (g p)) \<Longrightarrow> compiles pf (concat (map f ps)) (concat (map g ps))"
  by (induction ps) (auto simp: compiles_nil intro!: compiles_append)

text \<open>A character that is a straight sequence of assembler calls.\<close>

lemma compiles_calls:
  assumes "b \<noteq> 255" "\<And>c. compile_char pf b c = on_insns (seq_r (map (run_asm pf) cs)) c"
  shows "compiles pf [b] (map (\<lambda>c. asm_fields c 0) cs)"
  unfolding compiles_def
proof (intro allI impI)
  fix ws es n c assume "ready pf ws es (length (map (\<lambda>c. asm_fields c 0) cs) + n) c"
  then obtain c' where "on_insns (seq_r (map (run_asm pf) cs)) c = Inr c'"
      "ready pf (ws @ map (\<lambda>c. asm_fields c 0) cs) es n c'"
    using ready_calls by (metis length_map)
  with assms show "\<exists>c'. (\<forall>rest. compile_input pf ([b] @ rest) c = compile_input pf rest c')
      \<and> ready pf (ws @ map (\<lambda>c. asm_fields c 0) cs) es n c'" by auto
qed

lemma compiles_loop:
  assumes "compiles pf t body" shows "compiles pf (91 # t @ [93]) (loop_code body)"
  unfolding compiles_def
proof (intro allI impI)
  fix ws es n c assume "ready pf ws es (length (loop_code body) + n) c"
  then have "ready pf ws es (2 + (length body + Suc n)) c" by (simp add: loop_code_def)
  from open_loop_effect [OF this] obtain w d where d: "open_loop pf c = Inr d"
    "ready pf (ws @ [lbu_t0, beq_fields (reg_num rv_t0) (reg_num rv_zero) w])
       (es @ [\<lparr>check_offset = of_nat (4 * length ws), beq_offset = of_nat (4 * Suc (length ws))\<rparr>])
       (length body + Suc n) d" by blast
  from compilesD [OF assms d(2)] obtain e
    where e: "\<And>rest. compile_input pf (t @ rest) d = compile_input pf rest e"
    "ready pf ((ws @ [lbu_t0, beq_fields (reg_num rv_t0) (reg_num rv_zero) w]) @ body)
       (es @ [\<lparr>check_offset = of_nat (4 * length ws), beq_offset = of_nat (4 * Suc (length ws))\<rparr>])
       (Suc n) e" by blast
  from close_loop_effect [of pf ws w body es n e] e(2) obtain f
    where "close_loop pf e = Inr f" "ready pf (ws @ loop_code body) es n f" by auto
  with d(1) e(1) show "\<exists>c'. (\<forall>rest. compile_input pf ((91 # t @ [93]) @ rest) c = compile_input pf rest c')
      \<and> ready pf (ws @ loop_code body) es n c'"
    by (auto simp: compile_char_def)
qed

lemma compiles_bf: "remarks_ok p \<Longrightarrow> compiles pf (bf_text p) (code p)"
proof (induction p)
  case (Loop ps)
  then have "compiles pf (concat (map bf_text ps)) (concat (map code ps))"
    by (intro compiles_concat) auto
  then show ?case using compiles_loop by simp
next
  case (Remark b)
  then show ?case by (auto simp: compiles_def compile_char_def)
next
  case Plus
  show ?case using compiles_calls [of 43 pf "add_calls 1"]
    by (simp add: compile_char_def emit_calls calls_code)
next
  case Minus
  show ?case using compiles_calls [of 45 pf "add_calls (- 1)"]
    by (simp add: compile_char_def emit_calls calls_code)
next
  case Dot
  show ?case using compiles_calls [of 46 pf "syscall_calls 64"]
    by (simp add: compile_char_def emit_calls calls_code)
next
  case Comma
  show ?case using compiles_calls [of 44 pf "syscall_calls 63"]
    by (simp add: compile_char_def emit_calls calls_code)
next
  case Gt
  show ?case using compiles_calls [of 62 pf "[Asm_addi (reg_num rv_s1) (reg_num rv_s1) 1]"]
    by (simp add: compile_char_def emit_calls addi_word_def)
next
  case Lt
  show ?case using compiles_calls [of 60 pf "[Asm_addi (reg_num rv_s1) (reg_num rv_s1) (- 1)]"]
    by (simp add: compile_char_def emit_calls addi_word_def)
qed

definition program_text :: "bf list \<Rightarrow> u8 list" where
  "program_text ps = concat (map bf_text ps)"

lemma prologue_calls:
  "compile_prologue pf = seq_r (map (run_asm pf) [Asm_lui (reg_num rv_s1) 0, Asm_addi (reg_num rv_s1) (reg_num rv_zero) 0])"
  "compile_epilogue pf = seq_r (map (run_asm pf) [Asm_addi (reg_num rv_a7) (reg_num rv_zero) 93,
     Asm_addi (reg_num rv_a0) (reg_num rv_zero) 0, Asm_ecall])"
  by (simp_all add: compile_prologue_def compile_epilogue_def del: seq_r.simps)

lemma compile_stdin_effect:
  assumes "\<forall>c. grants pf c" "\<forall>p \<in> set ps. remarks_ok p" "4 * length (program_code ps) \<le> 2 ^ 31"
    and eof: "tail = [] \<or> hd tail = 255"
  shows "\<exists>s. compile_stdin pf (program_text ps @ tail) zero_out = Inr s \<and> holds (program_code ps) s"
proof -
  let ?body = "concat (map code ps)"
  have "room_words pf (length prologue + (length ?body + length epilogue)) zero_out"
    using assms(1,3) by (simp add: room_words_def room_def zero_out_def program_code_def)
  then obtain s where s: "compile_prologue pf zero_out = Inr s" "holds prologue s"
      "room_words pf (length ?body + length epilogue) s"
    using run_asms [OF holds_zero, of pf "[Asm_lui (reg_num rv_s1) 0, Asm_addi (reg_num rv_s1) (reg_num rv_zero) 0]"
      "length ?body + length epilogue"]
    by (auto simp: prologue_calls prologue_def addi_word_def)
  let ?c = "\<lparr>insns = s, loop_begin_stack = zero_out\<rparr>"
  have "room_words pf (length ?body + length epilogue) zero_out"
    using assms(1,3) by (simp add: room_words_def room_def zero_out_def program_code_def)
  with s have "ready pf prologue [] (length ?body + length epilogue) ?c"
    by (simp add: ready_def holds_zero)
  moreover have "compiles pf (program_text ps) ?body"
    unfolding program_text_def using assms(2) compiles_bf by (intro compiles_concat) blast
  ultimately obtain c where c: "\<And>rest. compile_input pf (program_text ps @ rest) ?c = compile_input pf rest c"
      "ready pf (prologue @ ?body) [] (length epilogue) c"
    using compilesD [of pf "program_text ps" ?body prologue "[]" "length epilogue" ?c] by blast
  have "compile_input pf tail c = Inr c" using eof by (cases tail) auto
  moreover obtain t where "compile_epilogue pf (insns c) = Inr t" "holds (program_code ps) t"
    using run_asms [of "prologue @ ?body" "insns c" pf "[Asm_addi (reg_num rv_a7) (reg_num rv_zero) 93,
      Asm_addi (reg_num rv_a0) (reg_num rv_zero) 0, Asm_ecall]" 0] c(2)
    by (auto simp: prologue_calls ready_def epilogue_def addi_word_def program_code_def)
  ultimately show ?thesis using s(1) c(1) by (simp add: compile_stdin_def)
qed

section \<open>Properties\<close>

text \<open>
  Property C3. The one-pass compiler with its loop stack and back-patching computes what the
  recursive compiler defines: for every program (remarks are characters that are no command;
  the input ends, or goes on with the byte 255, which reads as its end) of at most 2 GiB of
  code, \<open>compile_stdin\<close> leaves exactly \<open>program_code\<close> in the buffer.  No bit of it
  depends on uninitialised memory, although each branch is first emitted without its offset.
\<close>

theorem compile_stdin_correct:
  assumes "\<forall>c. grants pf c" "\<forall>p \<in> set ps. remarks_ok p" "4 * length (program_code ps) \<le> 2 ^ 31"
    and "tail = [] \<or> hd tail = 255"
  shows "\<exists>s. compile_stdin pf (program_text ps @ tail) zero_out = Inr s
    \<and> contents s = le32s (program_code ps)"
  using compile_stdin_effect [OF assms] by (auto simp: holds_def)

text \<open>\<open>+[->+<].\<close>\<close>

theorem compile_stdin_correct_witness:
  "\<exists>s. compile_stdin pf0 [43, 91, 45, 62, 43, 60, 93, 46] zero_out = Inr s
    \<and> contents s = le32s (program_code [Plus, Loop [Minus, Gt, Plus, Lt], Dot])
    \<and> length (contents s) = 4 * 24"
proof -
  let ?ps = "[Plus, Loop [Minus, Gt, Plus, Lt], Dot]"
  have l: "length (program_code ?ps) = 24"
    by (simp add: program_code_def prologue_def epilogue_def add_code_def syscall_code_def loop_code_def)
  have t: "program_text ?ps @ [] = [43, 91, 45, 62, 43, 60, 93, 46]" by (simp add: program_text_def)
  obtain s where "compile_stdin pf0 [43, 91, 45, 62, 43, 60, 93, 46] zero_out = Inr s"
    "contents s = le32s (program_code ?ps)"
    using compile_stdin_correct [of pf0 ?ps "[]"] l unfolding t by (auto simp: pf0_def)
  with l show ?thesis by simp
qed

text \<open>
  Property C27. A \<open>]\<close> without its \<open>[\<close> pops the empty loop stack: whatever the program before
  it, the compiler reads outside the stack's block (the offset wraps below zero) instead of
  reporting an error.
\<close>

theorem unmatched_close_faults:
  assumes "\<forall>c. grants pf c" "\<forall>p \<in> set ps. remarks_ok p" "4 * length (program_code ps) \<le> 2 ^ 31"
  shows "\<exists>h. compile_stdin pf (program_text ps @ 93 # rest) zero_out = Inl h"
proof -
  let ?body = "concat (map code ps)"
  have "room_words pf (length prologue + length ?body) zero_out"
    using assms(1,3) by (simp add: room_words_def room_def zero_out_def program_code_def)
  then obtain s where s: "compile_prologue pf zero_out = Inr s" "holds prologue s"
      "room_words pf (length ?body) s"
    using run_asms [OF holds_zero, of pf "[Asm_lui (reg_num rv_s1) 0, Asm_addi (reg_num rv_s1) (reg_num rv_zero) 0]"
      "length ?body"]
    by (auto simp: prologue_calls prologue_def addi_word_def)
  let ?c = "\<lparr>insns = s, loop_begin_stack = zero_out\<rparr>"
  have "room_words pf (length ?body) zero_out"
    using assms(1,3) by (simp add: room_words_def room_def zero_out_def program_code_def)
  with s have "ready pf prologue [] (length ?body + 0) ?c" by (simp add: ready_def holds_zero)
  moreover have "compiles pf (program_text ps) ?body"
    unfolding program_text_def using assms(2) compiles_bf by (intro compiles_concat) blast
  ultimately obtain c where c: "\<And>rest. compile_input pf (program_text ps @ rest) ?c = compile_input pf rest c"
      "ready pf (prologue @ ?body) [] 0 c" unfolding compiles_def by blast
  have "holds (loop_words []) (loop_begin_stack c)" using c(2) by (simp add: ready_def)
  from loops.pop_empty [OF this] obtain h where "compile_char pf 93 c = Inl h"
    by (auto simp: compile_char_def close_loop_def)
  with s(1) c(1) show ?thesis by (auto simp: compile_stdin_def)
qed

theorem unmatched_close_faults_witness: "\<exists>h. compile_stdin pf0 [43, 93, 43] zero_out = Inl h"
proof -
  have "program_text [Plus] @ 93 # [43] = [43, 93, 43]" by (simp add: program_text_def)
  moreover have "length (program_code [Plus]) = 8"
    by (simp add: program_code_def prologue_def epilogue_def add_code_def)
  ultimately show ?thesis using unmatched_close_faults [of pf0 "[Plus]" "[43]"] by (simp add: pf0_def)
qed

section \<open>What the code of a loop does\<close>

lemma sint_of_nat: "n < 2 ^ 15 \<Longrightarrow> sint (of_nat n :: i16) = int n"
  by (simp only: signed_of_nat) (simp add: signed_take_bit_int_eq_self)

lemma scast_of_nat: "n < 2 ^ 15 \<Longrightarrow> (scast (of_nat n :: i16) :: u32) = of_nat n"
  using sint_of_nat by (metis of_int_of_nat_eq of_int_sint scast_eq)

lemma bit_minus_9: "0 < n \<Longrightarrow> n \<le> 512 \<Longrightarrow> bit (- of_nat n :: u32) 9"
proof -
  assume n: "0 < n" "n \<le> 512"
  then have "(- of_nat n :: u32) = of_nat (4294967296 - n)" by (simp add: of_nat_diff)
  then have u: "unat (- of_nat n :: u32) = 4294967296 - n"
    using n by (simp only: unat_of_nat) (simp add: take_bit_nat_eq_self)
  have "(4294967296 - n) div 2 ^ 9 = 8388607" using n by (intro div_nat_eqI) auto
  then have "bit (unat (- of_nat n :: u32)) 9" unfolding u bit_iff_odd by simp
  then show ?thesis by (simp add: bit_unsigned_iff)
qed

lemma jal_misaligned:
  assumes "0 < n" "n \<le> 512"
  shows "imm_j (push_bit 12 (- of_nat n)) AND 3 = 2"
proof -
  have three: "(3 :: u32) = mask 2" by (simp add: mask_eq_exp_minus_1)
  show ?thesis
  proof (rule bit_word_eqI)
    fix k assume "k < LENGTH(32)"
    show "bit (imm_j (push_bit 12 (- of_nat n)) AND 3) k = bit (2 :: u32) k"
      using bit_minus_9 [OF assms] unfolding three imm_j_def
      by (cases "k = 0"; cases "k = 1") (auto simp: bits bit_simps)
  qed
qed

text \<open>The two jumps of a loop, for bodies of at most 125 instructions.\<close>

lemma loop_code_decodes:
  assumes "length body \<le> 125"
  shows "decode (loop_code body ! 1) = Some (Branch Beq 5 0 (of_nat (4 * (length body + 3))))"
    and "\<exists>off. decode (loop_code body ! (length body + 2)) = Some (Jal 0 off) \<and> off AND 3 = 2"
proof -
  let ?n = "4 * (length body + 3)"
  have n: "0 < ?n" "?n \<le> 512" using assms by auto
  have sc: "(scast (loop_distance (length body)) :: u32) = of_nat ?n"
    unfolding loop_distance_def by (rule scast_of_nat) (use n in simp)
  have si: "sint (loop_distance (length body)) = int ?n"
    unfolding loop_distance_def by (rule sint_of_nat) (use n in simp)
  have "decode (patch_beq_fields (loop_distance (length body)) (beq_fields (reg_num rv_t0) (reg_num rv_zero) 0))
      = Some (Branch Beq (reg_num rv_t0) (reg_num rv_zero) (sext 13 (scast (loop_distance (length body)) AND NOT 1)))"
    by (rule decode_beq) simp_all
  also have "sext 13 (scast (loop_distance (length body)) AND NOT 1) = (of_nat ?n :: u32)"
    using branch_offset [of "loop_distance (length body)"] n sc unfolding si by simp
  finally show "decode (loop_code body ! 1) = Some (Branch Beq 5 0 (of_nat ?n))"
    by (simp add: loop_code_def)
  have "decode (jal_fields (loop_distance (length body)) 0)
      = Some (Jal 0 (imm_j (push_bit 12 (- of_nat ?n))))"
    unfolding decode_jal sc ..
  moreover have "loop_code body ! (length body + 2) = jal_fields (loop_distance (length body)) 0"
    by (simp add: loop_code_def nth_append)
  ultimately show "\<exists>off. decode (loop_code body ! (length body + 2)) = Some (Jal 0 off) \<and> off AND 3 = 2"
    using jal_misaligned [OF n] by simp
qed

lemma unat_two: "unat (2 :: u32) = 2"
  by simp

lemma misaligned_sum: "p AND 3 = 0 \<Longrightarrow> off AND 3 = 2 \<Longrightarrow> (p + off) AND 3 \<noteq> 0" for p :: u32
proof
  assume "p AND 3 = 0" "off AND 3 = 2" "(p + off) AND 3 = 0"
  then have "unat p mod 4 = 0" "unat off mod 4 = 2" "unat (p + off) mod 4 = 0"
    by (metis and_3_mod unsigned_0, metis and_3_mod unat_two, metis and_3_mod unsigned_0)
  moreover have "unat (p + off) mod 4 = (unat p + unat off) mod 4"
    by (simp add: unat_word_ariths mod_mod_cancel)
  ultimately show False by presburger
qed

text \<open>
  Property C14. Compiled loops do not loop.  Anywhere in a program, for a body of up to 125
  instructions: the branch that should skip the loop is measured from the test, one
  instruction before the branch, so it lands one instruction past the loop's end; and the
  jump that should return to the test has a displacement that is no multiple of 4, so
  executing it stops the hart with a misaligned pc.
\<close>

theorem loop_jumps_wrong:
  assumes "\<forall>c. grants pf c" "\<forall>p \<in> set (ps @ Loop qs # rs). remarks_ok p"
    and "4 * length (program_code (ps @ Loop qs # rs)) \<le> 2 ^ 31"
    and "n = length (concat (map code qs))" "n \<le> 125" "test = 2 + length (concat (map code ps))"
  shows "\<exists>s ws off. compile_stdin pf (program_text (ps @ Loop qs # rs)) zero_out = Inr s
    \<and> contents s = le32s ws
    \<and> decode (ws ! test) = Some (Load Lbu 5 9 0)
    \<and> decode (ws ! (test + 1)) = Some (Branch Beq 5 0 (of_nat (4 * (n + 3))))
    \<and> decode (ws ! (test + n + 2)) = Some (Jal 0 off)
    \<and> (\<forall>h. xpc h AND 3 = 0 \<longrightarrow> hart_exec (Jal 0 off) h = Inl Misaligned)"
proof -
  let ?ws = "program_code (ps @ Loop qs # rs)" and ?body = "concat (map code qs)"
  obtain s where s: "compile_stdin pf (program_text (ps @ Loop qs # rs)) zero_out = Inr s" "contents s = le32s ?ws"
    using compile_stdin_effect [OF assms(1-3), of "[]"] by (auto simp: holds_def)
  have at: "?ws ! (test + k) = loop_code ?body ! k" if "k < n + 3" for k
    using that assms(4,6) by (simp add: program_code_def prologue_def nth_append loop_code_def nth_Cons')
  have "decode lbu_t0 = Some (Load Lbu 5 9 0)"
    unfolding lbu_t0_def by (subst decode_lbu) (simp_all add: sext_def)
  moreover have "loop_code ?body ! 0 = lbu_t0" by (simp add: loop_code_def)
  ultimately have "decode (?ws ! test) = Some (Load Lbu 5 9 0)" using at [of 0] by simp
  moreover have "decode (?ws ! (test + 1)) = Some (Branch Beq 5 0 (of_nat (4 * (n + 3))))"
    using at [of 1] loop_code_decodes(1) [of ?body] assms(4,5) by simp
  moreover obtain off where off: "decode (?ws ! (test + n + 2)) = Some (Jal 0 off)" "off AND 3 = 2"
    using at [of "n + 2"] loop_code_decodes(2) [of ?body] assms(4,5) by (auto simp: add.assoc)
  moreover have "hart_exec (Jal 0 off) h = Inl Misaligned" if "xpc h AND 3 = 0" for h
    using misaligned_sum [OF that off(2)] by (simp add: jump_to_def)
  ultimately show ?thesis using s by blast
qed

theorem loop_jumps_wrong_witness:
  "\<exists>s ws off. compile_stdin pf0 [91, 45, 93] zero_out = Inr s \<and> contents s = le32s ws
    \<and> decode (ws ! 2) = Some (Load Lbu 5 9 0)
    \<and> decode (ws ! 3) = Some (Branch Beq 5 0 24) \<and> decode (ws ! 7) = Some (Jal 0 off)
    \<and> (\<forall>h. xpc h AND 3 = 0 \<longrightarrow> hart_exec (Jal 0 off) h = Inl Misaligned)"
proof -
  have t: "program_text ([] @ Loop [Minus] # []) = [91, 45, 93]" by (simp add: program_text_def)
  have "length (program_code [Loop [Minus]]) = 11"
    by (simp add: program_code_def prologue_def epilogue_def add_code_def loop_code_def)
  then show ?thesis
    using loop_jumps_wrong [of pf0 "[]" "[Minus]" "[]" 3 2, unfolded t]
    by (simp add: pf0_def add_code_def del: hart_exec.simps)
qed

text \<open>
  Property C28. The code of \<open>.\<close> does not write: it should call \<open>write(1, cell, 1)\<close>, but
  executing it reaches the system call with the cell's address in \<open>a0\<close> (where the file
  descriptor belongs, computed over the 1 put there before) and \<open>a1\<close> (the buffer) as it was.
\<close>

fun exec_all :: "insn list \<Rightarrow> hart \<Rightarrow> hart_stop + hart" where
  "exec_all [] h = Inr h"
| "exec_all (i # is) h = (case hart_exec i h of Inl e \<Rightarrow> Inl e | Inr h' \<Rightarrow> exec_all is h')"

theorem output_passes_pointer_as_fd:
  assumes "\<forall>c. grants pf c" "xreg h 0 = 0"
  shows "\<exists>s ws is h'. emit_syscall pf 64 zero_out = Inr s \<and> contents s = le32s ws
    \<and> map decode ws = map Some (is @ [Ecall]) \<and> exec_all is h = Inr h'
    \<and> xreg h' 17 = 64 \<and> xreg h' 10 = xreg h 9 \<and> xreg h' 11 = xreg h 11
    \<and> xreg h' 12 = 1 \<and> xmem h' = xmem h"
proof -
  have "room_words pf (length (syscall_calls 64) + 0) zero_out"
    using assms by (simp add: room_words_def room_def zero_out_def calls_code)
  from run_asms [OF holds_zero this] obtain s where s: "emit_syscall pf 64 zero_out = Inr s"
    "contents s = le32s (map (\<lambda>c. asm_fields c 0) (syscall_calls 64))"
    unfolding emit_calls by (auto simp: holds_def)
  have m: "sext 12 64 = 64" "sext 12 1 = 1"
    by (simp_all add: sext_def)
  let ?is = "[Opi Add 17 0 64, Opi Add 10 0 1, Op Or 10 0 9, Opi Add 12 0 1]"
  have "\<forall>c \<in> set (syscall_calls 64). regs_valid c" by (simp add: syscall_calls_def)
  then have "map decode (map (\<lambda>c. asm_fields c 0) (syscall_calls 64)) = map (\<lambda>c. Some (meaning c)) (syscall_calls 64)"
    by (simp add: decode_asm)
  also have "\<dots> = map Some (?is @ [Ecall])" by (simp add: syscall_calls_def m)
  finally show ?thesis
    using s by (intro exI [of _ s] exI [of _ "map (\<lambda>c. asm_fields c 0) (syscall_calls 64)"] exI [of _ ?is])
      (simp add: set_x_def next_pc_def assms(2))
qed

theorem output_passes_pointer_as_fd_witness:
  "\<exists>s ws is h'. emit_syscall pf0 64 zero_out = Inr s \<and> contents s = le32s ws
    \<and> map decode ws = map Some (is @ [Ecall])
    \<and> exec_all is \<lparr>xreg = (\<lambda>r. if r = 9 then 65536 else 0), xpc = 0, xmem = (\<lambda>_. None), xwr = (\<lambda>_. False)\<rparr> = Inr h'
    \<and> xreg h' 10 = 65536 \<and> xreg h' 11 = 0"
  using output_passes_pointer_as_fd [of pf0
      "\<lparr>xreg = (\<lambda>r. if r = 9 then 65536 else 0), xpc = 0, xmem = (\<lambda>_. None), xwr = (\<lambda>_. False)\<rparr>"]
  by (auto simp: pf0_def)

end
