(* ===== verification/Bf_Run.thy ===== *)
theory Bf_Run
  imports Bf_Compile Refinement
begin

text \<open>
  What compiled programs do.  The abstract machine is the language's own: a tape of byte
  cells, a pointer, and the commands still to run; it stops at the end, at input and output,
  and at a loop (whose compiled jumps are wrong).  For the commands \<open>+ - < >\<close> the emitted
  instructions simulate it on the specification hart, and so on the emulator; the end, input
  and output bring it to a system call.
\<close>

section \<open>The language\<close>

record bf_state =
  todo :: "bf list"
  tape :: "u32 \<Rightarrow> u8"
  ptr :: u32

datatype bf_stop = Done | Output | Input | Off_tape | Looping

definition set_cell :: "(u32 \<Rightarrow> bool) \<Rightarrow> bf list \<Rightarrow> u8 \<Rightarrow> bf_state \<Rightarrow> bf_stop + bf_state" where
  "set_cell cell ps v s =
     (if cell (ptr s) then Inr (s\<lparr>todo := ps, tape := (tape s)(ptr s := v)\<rparr>) else Inl Off_tape)"

definition move_to :: "(u32 \<Rightarrow> bool) \<Rightarrow> bf list \<Rightarrow> u32 \<Rightarrow> bf_state \<Rightarrow> bf_stop + bf_state" where
  "move_to cell ps p s =
     (if cell (ptr s) \<and> cell p then Inr (s\<lparr>todo := ps, ptr := p\<rparr>) else Inl Off_tape)"

fun bf_command :: "(u32 \<Rightarrow> bool) \<Rightarrow> bf list \<Rightarrow> bf_state \<Rightarrow> bf_stop + bf_state" where
  "bf_command cell [] s = Inl Done"
| "bf_command cell (Remark c # ps) s = bf_command cell ps s"
| "bf_command cell (Plus # ps) s = set_cell cell ps (tape s (ptr s) + 1) s"
| "bf_command cell (Minus # ps) s = set_cell cell ps (tape s (ptr s) - 1) s"
| "bf_command cell (Gt # ps) s = move_to cell ps (ptr s + 1) s"
| "bf_command cell (Lt # ps) s = move_to cell ps (ptr s - 1) s"
| "bf_command cell (Dot # ps) s = Inl Output"
| "bf_command cell (Comma # ps) s = Inl Input"
| "bf_command cell (Loop qs # ps) s = Inl Looping"

definition bf_step :: "(u32 \<Rightarrow> bool) \<Rightarrow> bf_state \<Rightarrow> bf_stop + bf_state" where
  "bf_step cell s = bf_command cell (todo s) s"

text \<open>A program starts on the first cell of an empty tape.\<close>

definition bf_start :: "bf list \<Rightarrow> bf_state" where
  "bf_start ps = \<lparr>todo = ps, tape = \<lambda>_. 0, ptr = 0\<rparr>"

text \<open>
  The system call a program waits in when it stops: its number in \<open>a7\<close>, its first argument in
  \<open>a0\<close>.  The calls for output and input get the address of the cell there.
\<close>

fun stop_call :: "bf_stop \<Rightarrow> bf_state \<Rightarrow> (u32 \<times> u32) option" where
  "stop_call Done s = Some (93, 0)"
| "stop_call Output s = Some (64, ptr s)"
| "stop_call Input s = Some (63, ptr s)"
| "stop_call Off_tape s = None"
| "stop_call Looping s = None"

section \<open>Code in memory\<close>

text \<open>Bytes that are there and that the guest cannot write.\<close>

fun bytes_at :: "u8 list \<Rightarrow> u32 \<Rightarrow> hart \<Rightarrow> bool" where
  "bytes_at [] a h = True"
| "bytes_at (b # bs) a h = (xmem h a = Some b \<and> \<not> xwr h a \<and> bytes_at bs (a + 1) h)"

lemma bytes_at_append: "bytes_at (xs @ ys) a h \<longleftrightarrow> bytes_at xs a h \<and> bytes_at ys (a + of_nat (length xs)) h"
  by (induction xs arbitrary: a) (auto simp: add.assoc)

lemma bytes_at_le32: "bytes_at (le32 w @ ys) a h \<longleftrightarrow> bytes_at (le32 w) a h \<and> bytes_at ys (a + 4) h"
  by (simp add: bytes_at_append)

text \<open>Only memory and protections matter, and a write to a writable byte changes neither.\<close>

lemma bytes_at_cong: "xmem h' = xmem h \<Longrightarrow> xwr h' = xwr h \<Longrightarrow> bytes_at xs a h' = bytes_at xs a h"
  by (induction xs arbitrary: a) auto

lemma bytes_at_write:
  "xwr h p \<Longrightarrow> xmem h' = (xmem h)(p := v) \<Longrightarrow> xwr h' = xwr h \<Longrightarrow> bytes_at xs a h \<Longrightarrow> bytes_at xs a h'"
  by (induction xs arbitrary: a) auto

lemma fetch_word:
  assumes "bytes_at (le32 w) (xpc h) h" "xpc h AND 3 = 0" shows "fetch h = Inr w"
proof -
  have "guest_read (xmem h) (xpc h) 4 = Inr (le32 w)"
    using assms(1) unfolding guest_read_4 by (simp add: le32_def add.assoc)
  then show ?thesis
    using assms(2) by (simp add: fetch_def le32_def of_le_four del: of_le.simps)
qed

lemma emulated_one:
  assumes "bytes_at (le32 w) (xpc h) h" "xpc h AND 3 = 0" "decode w = Some i" "emulated nd i h"
  shows "emulated_step nd h = (case hart_exec i h of Inl e \<Rightarrow> Inl e | Inr h' \<Rightarrow> Inr h')"
  using fetch_word [OF assms(1,2)] assms(3,4) by (simp add: emulated_step_def split: sum.split)

section \<open>One instruction\<close>

text \<open>The hart is about to execute the words \<open>ws\<close>.\<close>

definition hart_at :: "u32 list \<Rightarrow> hart \<Rightarrow> bool" where
  "hart_at ws h \<longleftrightarrow> bytes_at (le32s ws) (xpc h) h \<and> xpc h AND 3 = 0"

lemma aligned_next: "p AND 3 = 0 \<Longrightarrow> (p + 4) AND 3 = 0" for p :: u32
proof -
  assume "p AND 3 = 0"
  then have "unat p mod 4 = 0" by (metis and_3_mod unsigned_0)
  moreover have "unat (p + 4) mod 4 = (unat p + 4) mod 4"
    by (simp add: unat_word_ariths mod_mod_cancel)
  ultimately have "unat ((p + 4) AND 3) = 0" by (simp add: and_3_mod)
  then show ?thesis by (simp add: unat_eq_0)
qed

lemma set_x_fields [simp]:
  "xmem (set_x d v h) = xmem h" "xwr (set_x d v h) = xwr h" "xpc (set_x d v h) = xpc h"
  by (simp_all add: set_x_def)

lemma next_pc_fields [simp]:
  "xmem (next_pc h) = xmem h" "xwr (next_pc h) = xwr h" "xpc (next_pc h) = xpc h + 4"
  "xreg (next_pc h) = xreg h"
  by (simp_all add: next_pc_def)

lemma xreg_set_x [simp]: "xreg (set_x d v h) r = (if d \<noteq> 0 \<and> r = d then v else xreg h r)"
  by (simp add: set_x_def)

text \<open>An instruction that changes registers only.\<close>

lemma run_register_insn:
  assumes "hart_at (w # ws) h" "decode w = Some i" "emulated nd i h"
    and "hart_exec i h = Inr (next_pc (set_x d v h))"
  shows "emulated_step nd h = Inr (next_pc (set_x d v h)) \<and> hart_at ws (next_pc (set_x d v h))"
proof -
  have b: "bytes_at (le32 w) (xpc h) h" "bytes_at (le32s ws) (xpc h + 4) h" "xpc h AND 3 = 0"
    using assms(1) by (simp_all add: hart_at_def bytes_at_le32)
  have "bytes_at (le32s ws) (xpc h + 4) (next_pc (set_x d v h))"
    using b(2) bytes_at_cong [of "next_pc (set_x d v h)" h] by simp
  with emulated_one [OF b(1,3) assms(2,3)] assms(4) aligned_next [OF b(3)] show ?thesis
    by (simp add: hart_at_def)
qed

lemma run_addi:
  assumes "hart_at (addi_word d a n # ws) h"
    and "sext 12 (scast n) = v" "- (2 ^ 31) \<le> sint (xreg h (reg_num a)) + sint v"
      "sint (xreg h (reg_num a)) + sint v < 2 ^ 31"
  shows "emulated_step nd h = Inr (next_pc (set_x (reg_num d) (xreg h (reg_num a) + v) h))
    \<and> hart_at ws (next_pc (set_x (reg_num d) (xreg h (reg_num a) + v) h))"
proof (rule run_register_insn [OF assms(1)])
  have "unat (reg_num r) < 32" for r by (cases r) simp_all
  then show "decode (addi_word d a n) = Some (Opi Add (reg_num d) (reg_num a) v)"
    using decode_addi assms(2) by (simp add: addi_word_def)
qed (use assms(3,4) in simp_all)

lemma run_lui:
  assumes "hart_at (lui_fields (reg_num d) 0 0 # ws) h"
  shows "emulated_step nd h = Inr (next_pc (set_x (reg_num d) 0 h))
    \<and> hart_at ws (next_pc (set_x (reg_num d) 0 h))"
proof (rule run_register_insn [OF assms])
  have "unat (reg_num d) < 32" by (cases d) simp_all
  then show "decode (lui_fields (reg_num d) 0 0) = Some (Lui (reg_num d) 0)"
    using decode_lui [of "reg_num d" 0 0] by simp
qed simp_all

lemma run_lbu:
  assumes "hart_at (lbu_t0 # ws) h" "xmem h (xreg h 9) = Some b"
  shows "emulated_step nd h = Inr (next_pc (set_x 5 (ucast b) h))
    \<and> hart_at ws (next_pc (set_x 5 (ucast b) h))"
proof (rule run_register_insn [OF assms(1)])
  show "decode lbu_t0 = Some (Load Lbu 5 9 0)"
    unfolding lbu_t0_def by (subst decode_lbu) (simp_all add: sext_def)
qed (use assms(2) in \<open>simp_all add: guest_read.simps(2) [of _ _ 0, simplified]\<close>)

lemma run_sb:
  assumes "hart_at (sb_t0 # ws) h" "xmem h (xreg h 9) \<noteq> None" "xwr h (xreg h 9)"
    and h': "h' = next_pc (h\<lparr>xmem := (xmem h)(xreg h 9 := Some (ucast (xreg h 5)))\<rparr>)"
  shows "emulated_step nd h = Inr h' \<and> hart_at ws h'"
proof -
  have d: "decode sb_t0 = Some (Store Sb 9 5 0)"
    unfolding sb_t0_def by (subst decode_sb) (simp_all add: sext_def)
  have b: "bytes_at (le32 sb_t0) (xpc h) h" "bytes_at (le32s ws) (xpc h + 4) h" "xpc h AND 3 = 0"
    using assms(1) by (simp_all add: hart_at_def bytes_at_le32)
  have "hart_exec (Store Sb 9 5 0) h = Inr h'"
    using assms(2,3) h' by (auto simp: Let_def)
  moreover have "bytes_at (le32s ws) (xpc h + 4) h'"
    by (rule bytes_at_write [OF assms(3) _ _ b(2)]) (simp_all add: h')
  moreover have "xpc h' = xpc h + 4" by (simp add: h')
  ultimately show ?thesis
    using emulated_one [OF b(1,3) d] aligned_next [OF b(3)] by (simp add: hart_at_def)
qed

section \<open>The simulation\<close>

definition tape_in :: "(u32 \<Rightarrow> bool) \<Rightarrow> bf_state \<Rightarrow> hart \<Rightarrow> bool" where
  "tape_in cell s h \<longleftrightarrow> xreg h 0 = 0 \<and> xreg h 9 = ptr s
     \<and> (\<forall>a. cell a \<longrightarrow> unat a < guest_limit \<and> xwr h a \<and> xmem h a = Some (tape s a))"

definition runs :: "(u32 \<Rightarrow> bool) \<Rightarrow> bf list \<Rightarrow> bf_state \<Rightarrow> hart \<Rightarrow> bool" where
  "runs cell ps s h \<longleftrightarrow> hart_at (concat (map code ps) @ epilogue) h \<and> tape_in cell s h"

definition bf_rel :: "(u32 \<Rightarrow> bool) \<Rightarrow> bf_state \<Rightarrow> hart \<Rightarrow> bool" where
  "bf_rel cell s h = runs cell (todo s) s h"

lemma uint_u8_bounds: "0 \<le> uint b" "uint b < 256" for b :: u8
  using unsigned_less [of b, where 'a = int] by simp_all

lemma sint_ucast_u8: "sint (ucast b :: u32) = uint b" for b :: u8
proof -
  have "- (2 ^ 31) \<le> (0 :: int)" "256 \<le> (2 :: int) ^ 31" by simp_all
  then have "- (2 ^ 31) \<le> uint b" "uint b < 2 ^ 31" using uint_u8_bounds [of b] by linarith+
  then have "signed_take_bit 31 (uint b) = uint b" by (rule signed_take_bit_int_eq_self)
  then show ?thesis by (simp only: signed_ucast_eq) simp
qed

lemma ucast_add_u8: "(ucast (ucast b + v :: u32) :: u8) = b + ucast v" for b :: u8
proof (rule unat_eqI)
  have "unat (ucast (ucast b + v :: u32) :: u8) = (unat b + unat v) mod 2 ^ 32 mod 2 ^ 8"
    using unsigned_less [of b, where 'a = nat]
    by (simp add: unsigned_ucast_eq unat_word_ariths take_bit_eq_mod mod_add_left_eq)
  also have "\<dots> = (unat b + unat v) mod 2 ^ 8" by (simp add: mod_mod_cancel)
  also have "\<dots> = unat (b + ucast v)"
    by (simp add: unat_word_ariths unsigned_ucast_eq take_bit_eq_mod mod_add_right_eq)
  finally show "unat (ucast (ucast b + v :: u32) :: u8) = unat (b + ucast v)" .
qed

lemma imm_one: "sext 12 (scast (1 :: i16)) = 1" "sext 12 (scast (- 1 :: i16)) = - 1"
  "sext 12 (scast (0 :: i16)) = 0" "sext 12 (scast (93 :: i16)) = 93"
  by (simp_all add: sext_def)

lemma set_cell_simulated:
  assumes h: "hart_at (add_code n @ ws) h" and t: "tape_in cell s h"
    and n: "sext 12 (scast n) = v" "\<bar>sint v\<bar> = 1" and v: "ucast v = u"
    and s: "set_cell cell ps (tape s (ptr s) + u) s = Inr s'"
  obtains h' where "iter (emulated_step nd) 3 h = Some h'" "hart_at ws h'" "tape_in cell s' h'"
    "todo s' = ps"
proof -
  let ?b = "tape s (ptr s)" and ?p = "ptr s"
  have c: "cell ?p" and s': "s' = s\<lparr>todo := ps, tape := (tape s)(?p := ?b + u)\<rparr>"
    using s by (auto simp: set_cell_def split: if_splits)
  have m: "xmem h ?p = Some ?b" "xwr h ?p" "xreg h 9 = ?p" using t c by (auto simp: tape_in_def)
  define h1 where "h1 = next_pc (set_x 5 (ucast ?b) h)"
  define h2 where "h2 = next_pc (set_x 5 (ucast ?b + v) h1)"
  define h3 where "h3 = next_pc (h2\<lparr>xmem := (xmem h2)(xreg h2 9 := Some (ucast (xreg h2 5)))\<rparr>)"
  have 1: "emulated_step nd h = Inr h1" "hart_at (addi_word rv_t0 rv_t0 n # sb_t0 # ws) h1"
    using run_lbu [of "addi_word rv_t0 rv_t0 n # sb_t0 # ws" h ?b nd] h m
    by (simp_all add: add_code_def h1_def)
  have "sint (xreg h1 5) = uint ?b" by (simp add: h1_def sint_ucast_u8)
  moreover have "- (2 ^ 31) \<le> (- 1 :: int)" "257 \<le> (2 :: int) ^ 31" by simp_all
  ultimately have "- (2 ^ 31) \<le> sint (xreg h1 5) + sint v" "sint (xreg h1 5) + sint v < 2 ^ 31"
    using n(2) uint_u8_bounds [of ?b] by linarith+
  then have 2: "emulated_step nd h1 = Inr h2" "hart_at (sb_t0 # ws) h2"
    using run_addi [OF 1(2) n(1), of nd] by (simp_all add: h2_def h1_def)
  have 3: "emulated_step nd h2 = Inr h3" "hart_at ws h3"
    using run_sb [OF 2(2) _ _ h3_def, of nd] m by (simp_all add: h2_def h1_def)
  have "(ucast (ucast ?b + v) :: u8) = ?b + u"
    using v by (simp add: ucast_add_u8)
  then have "tape_in cell s' h3"
    using t m(3) by (auto simp: tape_in_def s' h3_def h2_def h1_def)
  moreover have "iter (emulated_step nd) 3 h = Some h3"
    using 1 2 3 by (simp add: numeral_3_eq_3)
  ultimately show thesis using that 3(2) s' by simp
qed

lemma sint_small: "unat a < guest_limit \<Longrightarrow> sint a = int (unat a)" for a :: u32
proof -
  assume a: "unat a < guest_limit"
  have "int guest_limit \<le> 2 ^ 31" by (simp add: guest_limit_def)
  then have "int (unat a) < 2 ^ 31" using a by linarith
  moreover have "- (2 ^ 31) \<le> (0 :: int)" by simp
  then have "- (2 ^ 31) \<le> int (unat a)" by linarith
  ultimately have "signed_take_bit 31 (int (unat a)) = int (unat a)"
    by (intro signed_take_bit_int_eq_self)
  then show ?thesis by (simp add: sint_uint)
qed

lemma move_simulated:
  assumes h: "hart_at (addi_word rv_s1 rv_s1 n # ws) h" and t: "tape_in cell s h"
    and n: "sext 12 (scast n) = v" "\<bar>sint v\<bar> = 1"
    and s: "move_to cell ps (ptr s + v) s = Inr s'"
  obtains h' where "iter (emulated_step nd) 1 h = Some h'" "hart_at ws h'" "tape_in cell s' h'"
    "todo s' = ps"
proof -
  define h1 where "h1 = next_pc (set_x 9 (ptr s + v) h)"
  have c: "cell (ptr s)" and s': "s' = s\<lparr>todo := ps, ptr := ptr s + v\<rparr>"
    using s by (auto simp: move_to_def split: if_splits)
  have p: "unat (ptr s) < guest_limit" "xreg h 9 = ptr s" using c t by (auto simp: tape_in_def)
  have "int guest_limit + 1 \<le> 2 ^ 31" "- (2 ^ 31) \<le> (- 1 :: int)" by (simp_all add: guest_limit_def)
  moreover have "sint (xreg h 9) = int (unat (ptr s))" using p sint_small by simp
  ultimately have "- (2 ^ 31) \<le> sint (xreg h 9) + sint v" "sint (xreg h 9) + sint v < 2 ^ 31"
    using n(2) p(1) by linarith+
  then have "emulated_step nd h = Inr h1 \<and> hart_at ws h1"
    using run_addi [OF h n(1), of nd] p(2) by (simp add: h1_def)
  moreover have "tape_in cell s' h1" using t by (auto simp: tape_in_def s' h1_def)
  ultimately show thesis using that s' by simp
qed

lemma runs_simulated:
  "bf_command cell ps s = Inr s' \<Longrightarrow> runs cell ps s h \<Longrightarrow>
   \<exists>n h'. iter (emulated_step nd) (Suc n) h = Some h' \<and> runs cell (todo s') s' h'"
proof (induction ps)
  case (Cons p ps)
  let ?ws = "concat (map code ps) @ epilogue"
  have h: "hart_at (code p @ ?ws) h" and t: "tape_in cell s h"
    using Cons.prems(2) by (simp_all add: runs_def)
  have "ucast (- 1 :: u32) = (- 1 :: u8)" by (rule bit_word_eqI) (simp add: bit_simps)
  then have v: "ucast (1 :: u32) = (1 :: u8)" "ucast (- 1 :: u32) = (- 1 :: u8)"
    "\<bar>sint (1 :: u32)\<bar> = 1" "\<bar>sint (- 1 :: u32)\<bar> = 1" by simp_all
  have fin: "\<exists>n h'. iter (emulated_step nd) (Suc n) h = Some h' \<and> runs cell (todo s') s' h'"
    if "iter (emulated_step nd) (Suc n) h = Some h'" "hart_at ?ws h'" "tape_in cell s' h'" "todo s' = ps"
    for n h' using that by (auto simp: runs_def)
  show ?case
  proof (cases p)
    case Plus
    obtain h' where "iter (emulated_step nd) 3 h = Some h'" "hart_at ?ws h'" "tape_in cell s' h'" "todo s' = ps"
      using set_cell_simulated [of 1 ?ws h cell s 1 1 ps s' nd] h t imm_one(1) v(1,3) Cons.prems(1)
      by (auto simp: Plus)
    then show ?thesis using fin [of 2] by (simp add: numeral_3_eq_3)
  next
    case Minus
    obtain h' where "iter (emulated_step nd) 3 h = Some h'" "hart_at ?ws h'" "tape_in cell s' h'" "todo s' = ps"
      using set_cell_simulated [of "- 1" ?ws h cell s "- 1" "- 1" ps s' nd] h t imm_one(2) v(2,4) Cons.prems(1)
      by (auto simp: Minus)
    then show ?thesis using fin [of 2] by (simp add: numeral_3_eq_3)
  next
    case Gt
    obtain h' where "iter (emulated_step nd) 1 h = Some h'" "hart_at ?ws h'" "tape_in cell s' h'" "todo s' = ps"
      using move_simulated [of 1 ?ws h cell s 1 ps s' nd] h t imm_one(1) v(3) Cons.prems(1)
      by (auto simp: Gt)
    then show ?thesis using fin [of 0] by simp
  next
    case Lt
    obtain h' where "iter (emulated_step nd) 1 h = Some h'" "hart_at ?ws h'" "tape_in cell s' h'" "todo s' = ps"
      using move_simulated [of "- 1" ?ws h cell s "- 1" ps s' nd] h t imm_one(2) v(4) Cons.prems(1)
      by (auto simp: Lt)
    then show ?thesis using fin [of 0] by simp
  next
    case (Remark b)
    then show ?thesis using Cons.IH Cons.prems by (simp add: runs_def)
  qed (use Cons.prems in simp_all)
qed simp

interpretation tape: step_simulation "bf_step cell" "emulated_step nd" "bf_rel cell" for cell nd
proof
  fix s h s' assume "bf_rel cell s h" "bf_step cell s = Inr s'"
  then show "\<exists>n h'. iter (emulated_step nd) (Suc n) h = Some h' \<and> bf_rel cell s' h'"
    using runs_simulated [of cell "todo s" s s' h nd] by (simp add: bf_rel_def bf_step_def)
qed

text \<open>The code at which a program waits in a system call.\<close>

fun stop_code :: "bf_stop \<Rightarrow> u32 list" where
  "stop_code Done = epilogue"
| "stop_code Output = syscall_code 64"
| "stop_code Input = syscall_code 63"
| "stop_code Off_tape = []"
| "stop_code Looping = []"

lemma stopped_code: "bf_command cell ps s = Inl r \<Longrightarrow> \<exists>ws. concat (map code ps) @ epilogue = stop_code r @ ws"
proof (induction ps)
  case (Cons p ps)
  then show ?case by (cases p) (auto simp: set_cell_def move_to_def split: if_splits)
qed auto

section \<open>The start and the end of a program\<close>

lemma bytes_at_iff:
  "bytes_at xs a h \<longleftrightarrow> (\<forall>k < length xs. xmem h (a + of_nat k) = Some (xs ! k) \<and> \<not> xwr h (a + of_nat k))"
proof (induction xs arbitrary: a)
  case (Cons x xs)
  show ?case by (simp add: Cons.IH all_less_Suc_split add.assoc)
qed simp

text \<open>Two steps of the prologue point \<open>s1\<close> at guest address 0.\<close>

lemma prologue_runs:
  assumes "hart_at (prologue @ ws) h" "xreg h 0 = 0"
    and "\<forall>a. cell a \<longrightarrow> unat a < guest_limit \<and> xwr h a \<and> xmem h a = Some (t a)"
  obtains h' where "iter (emulated_step nd) 2 h = Some h'" "hart_at ws h'"
    "tape_in cell \<lparr>todo = ps, tape = t, ptr = 0\<rparr> h'"
proof -
  define h1 where "h1 = next_pc (set_x 9 0 h)"
  define h2 where "h2 = next_pc (set_x 9 0 h1)"
  have "hart_at (lui_fields (reg_num rv_s1) 0 0 # addi_word rv_s1 rv_zero 0 # ws) h"
    using assms(1) by (simp add: prologue_def)
  from run_lui [OF this, of nd] have 1: "emulated_step nd h = Inr h1"
    "hart_at (addi_word rv_s1 rv_zero 0 # ws) h1" by (simp_all add: h1_def)
  have "xreg h1 0 = 0" using assms(2) by (simp add: h1_def)
  with run_addi [OF 1(2) imm_one(3), of nd]
  have 2: "emulated_step nd h1 = Inr h2" "hart_at ws h2" by (simp_all add: h2_def)
  have "tape_in cell \<lparr>todo = ps, tape = t, ptr = 0\<rparr> h2"
    using assms(2,3) by (simp add: tape_in_def h2_def h1_def)
  with that 1 2 show thesis by (simp add: numeral_2_eq_2)
qed

text \<open>The code of a system call, up to the call.\<close>

lemma run_li:
  assumes "hart_at (addi_word d rv_zero n # ws) h" "xreg h 0 = 0" "sext 12 (scast n) = v"
  shows "emulated_step nd h = Inr (next_pc (set_x (reg_num d) v h)) \<and> hart_at ws (next_pc (set_x (reg_num d) v h))"
proof -
  have "- (2 ^ 31) \<le> sint v" "sint v < 2 ^ 31" using sint_range_size [of v] by (simp_all add: word_size)
  with run_addi [OF assms(1,3), of nd] assms(2) show ?thesis by simp
qed

lemma run_or:
  assumes "hart_at (or_fields (reg_num rv_a0) (reg_num rv_zero) (reg_num rv_s1) 0 # ws) h" "xreg h 0 = 0"
  shows "emulated_step nd h = Inr (next_pc (set_x 10 (xreg h 9) h)) \<and> hart_at ws (next_pc (set_x 10 (xreg h 9) h))"
proof (rule run_register_insn [OF assms(1)])
  show "decode (or_fields (reg_num rv_a0) (reg_num rv_zero) (reg_num rv_s1) 0) = Some (Op Or 10 0 9)"
    by (subst decode_or) simp_all
qed (simp_all add: assms(2))

lemma fetch_ecall: "hart_at (ecall_fields 0 # ws) h \<Longrightarrow> fetch h = Inr 0x73"
  using fetch_word [of "0x73" h] by (simp add: hart_at_def decode_ecall(1) bytes_at_le32)

lemma epilogue_runs:
  assumes "hart_at (epilogue @ ws) h" "xreg h 0 = 0"
  shows "\<exists>h'. iter (emulated_step nd) 2 h = Some h' \<and> fetch h' = Inr 0x73 \<and> xreg h' 17 = 93 \<and> xreg h' 10 = 0
    \<and> xreg h' 0 = 0 \<and> xreg h' 9 = xreg h 9 \<and> xmem h' = xmem h \<and> xwr h' = xwr h"
proof -
  define h1 where "h1 = next_pc (set_x 17 93 h)"
  define h2 where "h2 = next_pc (set_x 10 0 h1)"
  have 1: "emulated_step nd h = Inr h1" "hart_at (addi_word rv_a0 rv_zero 0 # ecall_fields 0 # ws) h1" "xreg h1 0 = 0"
    using run_li [OF _ assms(2) imm_one(4), of rv_a7 _ nd] assms by (simp_all add: epilogue_def h1_def)
  have 2: "emulated_step nd h1 = Inr h2" "hart_at (ecall_fields 0 # ws) h2"
    using run_li [OF 1(2,3) imm_one(3), of nd] by (simp_all add: h2_def)
  from fetch_ecall [OF 2(2)] have "fetch h2 = Inr 0x73" .
  moreover have "iter (emulated_step nd) 2 h = Some h2" using 1 2 by (simp add: numeral_2_eq_2)
  ultimately show ?thesis using assms(2) by (intro exI [of _ h2]) (simp add: h2_def h1_def)
qed

lemma syscall_runs:
  assumes "hart_at (syscall_code n @ ws) h" "xreg h 0 = 0" "sext 12 (scast n) = v"
  shows "\<exists>h'. iter (emulated_step nd) 4 h = Some h' \<and> fetch h' = Inr 0x73 \<and> xreg h' 17 = v \<and> xreg h' 10 = xreg h 9
    \<and> xreg h' 0 = 0 \<and> xreg h' 9 = xreg h 9 \<and> xmem h' = xmem h \<and> xwr h' = xwr h"
proof -
  define h1 where "h1 = next_pc (set_x 17 v h)"
  define h2 where "h2 = next_pc (set_x 10 1 h1)"
  define h3 where "h3 = next_pc (set_x 10 (xreg h2 9) h2)"
  define h4 where "h4 = next_pc (set_x 12 1 h3)"
  let ?or = "or_fields (reg_num rv_a0) (reg_num rv_zero) (reg_num rv_s1) 0"
  have 1: "emulated_step nd h = Inr h1" "xreg h1 0 = 0"
    "hart_at (addi_word rv_a0 rv_zero 1 # ?or # addi_word rv_a2 rv_zero 1 # ecall_fields 0 # ws) h1"
    using run_li [OF _ assms(2,3), of rv_a7 _ nd] assms(1,2) by (simp_all add: syscall_code_def h1_def)
  have 2: "emulated_step nd h1 = Inr h2" "xreg h2 0 = 0"
    "hart_at (?or # addi_word rv_a2 rv_zero 1 # ecall_fields 0 # ws) h2"
    using run_li [OF 1(3,2) imm_one(1), of nd] 1(2) by (simp_all add: h2_def)
  have 3: "emulated_step nd h2 = Inr h3" "xreg h3 0 = 0" "hart_at (addi_word rv_a2 rv_zero 1 # ecall_fields 0 # ws) h3"
    using run_or [OF 2(3,2), of nd] 2(2) by (simp_all add: h3_def)
  have 4: "emulated_step nd h3 = Inr h4" "hart_at (ecall_fields 0 # ws) h4"
    using run_li [OF 3(3,2) imm_one(1), of nd] by (simp_all add: h4_def)
  from fetch_ecall [OF 4(2)] have "fetch h4 = Inr 0x73" .
  moreover have "iter (emulated_step nd) 4 h = Some h4" using 1 2 3 4 by (simp add: eval_nat_numeral)
  ultimately show ?thesis using assms(2) by (intro exI [of _ h4]) (simp add: h4_def h3_def h2_def h1_def)
qed

lemma stop_runs:
  assumes "hart_at (stop_code r @ ws) h" "tape_in cell s h" "stop_call r s = Some (n, a)"
  obtains k h' where "iter (emulated_step nd) k h = Some h'" "fetch h' = Inr 0x73"
    "tape_in cell s h'" "xreg h' 17 = n" "xreg h' 10 = a"
proof -
  have z: "xreg h 0 = 0" "xreg h 9 = ptr s" using assms(2) by (simp_all add: tape_in_def)
  have m: "sext 12 (scast (64 :: i16)) = 64" "sext 12 (scast (63 :: i16)) = 63" by (simp_all add: sext_def)
  have "\<exists>k h'. iter (emulated_step nd) k h = Some h' \<and> fetch h' = Inr 0x73 \<and> xreg h' 17 = n \<and> xreg h' 10 = a
    \<and> xreg h' 0 = 0 \<and> xreg h' 9 = xreg h 9 \<and> xmem h' = xmem h \<and> xwr h' = xwr h"
  proof (cases r)
    case Done
    then show ?thesis using epilogue_runs [OF _ z(1), of ws nd] assms(1,3) by auto
  next
    case Output
    then show ?thesis using syscall_runs [OF _ z(1) m(1), of ws nd] assms(1,3) z(2) by auto
  next
    case Input
    then show ?thesis using syscall_runs [OF _ z(1) m(2), of ws nd] assms(1,3) z(2) by auto
  qed (use assms(3) in simp_all)
  then obtain k h' where r: "iter (emulated_step nd) k h = Some h'" "fetch h' = Inr 0x73" "xreg h' 17 = n" "xreg h' 10 = a"
    "xreg h' 0 = 0" "xreg h' 9 = xreg h 9" "xmem h' = xmem h" "xwr h' = xwr h" by blast
  then have "tape_in cell s h'" using assms(2) by (simp add: tape_in_def)
  from r(1,2) this r(3,4) show thesis by (rule that)
qed

text \<open>The emulator does not implement system calls.\<close>

lemma ecall_stops:
  assumes "machine_ok c" "fetch (hart_of c) = Inr 0x73"
  shows "step False c = Inl (Assertion_failed ''not implemented'')"
proof -
  have op: "op_of (fget opcode 0x73) = Some op_system"
    by (simp add: op_of_Some_iff layout bf_get_def)
  then have "\<not> (\<exists>h. dasm False 0x73 (pc c) = Inl h)"
    using dasm_stops [of False "0x73" "pc c"] by simp
  then obtain t where "dasm False 0x73 (pc c) = Inr t" by (metis sum.exhaust)
  then show ?thesis
    using fetch_hart_of [OF assms] op by (simp add: step_def execute_def Let_def)
qed

text \<open>A specification run that gets to a system call is an emulator run that ends there.\<close>

lemma reached_ecall:
  assumes "machine_ok c" "iter (emulated_step False) n (hart_of c) = Some h" "fetch h = Inr 0x73"
  obtains c' where "run (step False) (n + 1) c = Some (Assertion_failed ''not implemented'', c')"
    "machine_ok c'" "hart_of c' = h"
proof -
  from isa.lock_iter [OF assms(2)] assms(1) obtain c'
    where c': "iter (step False) n c = Some c'" "machine_ok c'" "hart_of c' = h" by blast
  have "step False c' = Inl (Assertion_failed ''not implemented'')"
    using ecall_stops [OF c'(2)] assms(3) c'(3) by simp
  then have "run (step False) (n + 1) c = Some (Assertion_failed ''not implemented'', c')"
    using run_iter [OF c'(1), of 1] by simp
  from this c'(2,3) show thesis by (rule that)
qed

section \<open>Compiled programs on the emulator\<close>

lemma straight_run:
  assumes ok: "machine_ok c" and code: "hart_at (program_code ps) (hart_of c)"
    and cells: "\<forall>a. cell a \<longrightarrow> unat a < guest_limit \<and> xwr (hart_of c) a \<and> xmem (hart_of c) a = Some 0"
    and run: "run (bf_step cell) n (bf_start ps) = Some (r, s')" "stop_call r s' = Some (call, arg)"
  shows "\<exists>m c'. run (step False) m c = Some (Assertion_failed ''not implemented'', c') \<and> machine_ok c'
    \<and> tape_in cell s' (hart_of c') \<and> xreg (hart_of c') 17 = call \<and> xreg (hart_of c') 10 = arg"
proof -
  let ?body = "concat (map code ps)" and ?s = "bf_start ps"
  have "xreg (hart_of c) 0 = 0" by (simp add: read_register_def)
  moreover have "hart_at (prologue @ ?body @ epilogue) (hart_of c)"
    using code by (simp add: program_code_def)
  ultimately obtain h1 where h1: "iter (emulated_step False) 2 (hart_of c) = Some h1"
      "hart_at (?body @ epilogue) h1" "tape_in cell ?s h1"
    unfolding bf_start_def using prologue_runs [OF _ _ cells] by metis
  then have "bf_rel cell ?s h1" by (simp add: bf_rel_def runs_def bf_start_def)
  from tape.sim_run [OF run(1) this, of False] obtain k h2
    where h2: "bf_step cell s' = Inl r" "iter (emulated_step False) k h1 = Some h2" "bf_rel cell s' h2" by blast
  obtain ws where e: "concat (map code (todo s')) @ epilogue = stop_code r @ ws"
    using stopped_code h2(1) unfolding bf_step_def by blast
  have "hart_at (stop_code r @ ws) h2" "tape_in cell s' h2"
    using h2(3) unfolding bf_rel_def runs_def e by simp_all
  from stop_runs [OF this run(2)] obtain j h3
    where h3: "iter (emulated_step False) j h2 = Some h3" "fetch h3 = Inr 0x73" "tape_in cell s' h3"
      "xreg h3 17 = call" "xreg h3 10 = arg" by blast
  have "iter (emulated_step False) (2 + k + j) (hart_of c) = Some h3"
    using iter_trans [OF iter_trans [OF h1(1) h2(2)] h3(1)] .
  from reached_ecall [OF ok this h3(2)] obtain c' where
    "run (step False) (2 + k + j + 1) c = Some (Assertion_failed ''not implemented'', c')"
    "machine_ok c'" "hart_of c' = h3" .
  with h3 show ?thesis by blast
qed

lemma compiled_runs:
  assumes "\<forall>c. grants pf c" "\<forall>p \<in> set ps. remarks_ok p" "4 * length (program_code ps) \<le> 2 ^ 31"
    and "compile_stdin pf (program_text ps) zero_out = Inr s"
    and "base AND 3 = 0" "entry AND 3 = 0" "c = start_machine base m entry"
    and "bytes_at (contents s) entry (hart_of c)"
    and "\<forall>a. cell a \<longrightarrow> unat a < guest_limit \<and> xwr (hart_of c) a \<and> xmem (hart_of c) a = Some 0"
    and "run (bf_step cell) n (bf_start ps) = Some (r, s')" "stop_call r s' = Some (call, arg)"
  shows "\<exists>c'. interpret_loop False base m entry = Some (Assertion_failed ''not implemented'', c')
    \<and> (\<forall>a. cell a \<longrightarrow> xmem (hart_of c') a = Some (tape s' a))
    \<and> xreg (hart_of c') 17 = call \<and> xreg (hart_of c') 10 = arg"
proof -
  have "contents s = le32s (program_code ps)"
    using compile_stdin_effect [OF assms(1-3), of "[]"] assms(4) by (auto simp: holds_def)
  then have "hart_at (program_code ps) (hart_of c)"
    using assms(6-8) by (simp add: hart_at_def start_machine_def)
  moreover have "machine_ok c"
    using assms(5,7) by (simp add: machine_ok_def start_machine_def cpu_ok_def zero_cpu_def)
  ultimately obtain k c' where c': "run (step False) k c = Some (Assertion_failed ''not implemented'', c')"
      "tape_in cell s' (hart_of c')" "xreg (hart_of c') 17 = call" "xreg (hart_of c') 10 = arg"
    using straight_run [OF _ _ assms(9-11)] by blast
  from run_loop [OF c'(1)] have "interpret_loop False base m entry = Some (Assertion_failed ''not implemented'', c')"
    by (simp add: interpret_loop_def assms(7))
  with c' show ?thesis by (auto simp: tape_in_def)
qed

text \<open>
  Programs run right up to their end or the first input or output, if they get there without
  a loop, from source text to memory: if the bytes the compiler produces lie at the entry
  point of the emulator, in memory the guest cannot write, and the cells start at guest
  address 0, then the emulator runs to the system call (which it does not implement, so it
  stops there with a failed assertion), with the tape in memory exactly as the language
  defines it and the number and the first argument of the call in place.
\<close>

theorem compiled_program_runs:
  assumes "\<forall>c. grants pf c" "\<forall>p \<in> set ps. remarks_ok p" "4 * length (program_code ps) \<le> 2 ^ 31"
    and "compile_stdin pf (program_text ps) zero_out = Inr s"
    and "base AND 3 = 0" "entry AND 3 = 0" "c = start_machine base m entry"
    and "bytes_at (contents s) entry (hart_of c)"
    and "\<forall>a. cell a \<longrightarrow> unat a < guest_limit \<and> xwr (hart_of c) a \<and> xmem (hart_of c) a = Some 0"
    and "run (bf_step cell) n (bf_start ps) = Some (r, s')" "stop_call r s' = Some (call, arg)"
  shows "\<exists>c'. interpret_loop False base m entry = Some (Assertion_failed ''not implemented'', c')
    \<and> (\<forall>a. cell a \<longrightarrow> xmem (hart_of c') a = Some (tape s' a))
    \<and> xreg (hart_of c') 17 = call \<and> xreg (hart_of c') 10 = arg"
  using compiled_runs [OF assms] .

text \<open>One page of zeroed cells, then the code, which is read-only.\<close>

definition demo_image :: "u8 list \<Rightarrow> host_mem" where
  "demo_image xs =
     \<lparr>cells = (\<lambda>a. if unat a < 4096 then Some 0
                 else if unat a < 4096 + length xs then Some (xs ! (unat a - 4096)) else None),
      writable = (\<lambda>a. unat a < 4096)\<rparr>"

lemma unat_ucast_u64: "unat (ucast a :: u64) = unat a" for a :: u32
  using unat_u32_less [of a] by (simp add: unsigned_ucast_eq take_bit_nat_eq_self)

lemma demo_image_hart:
  "xmem (hart_of (start_machine 0 (demo_image xs) 4096)) a
     = (if unat a < guest_limit then cells (demo_image xs) (ucast a) else None)"
  "xwr (hart_of (start_machine 0 (demo_image xs) 4096)) a = (unat a < 4096)"
  by (simp_all add: start_machine_def host_addr_def demo_image_def unat_ucast_u64)

lemma demo_image_code:
  assumes "length xs \<le> 4096"
  shows "bytes_at xs 4096 (hart_of (start_machine 0 (demo_image xs) 4096))"
  unfolding bytes_at_iff
proof (intro allI impI)
  fix k assume k: "k < length xs"
  have "unat (4096 + of_nat k :: u32) = 4096 + k"
    using k assms by (simp add: unat_word_ariths unat_of_nat take_bit_nat_eq_self)
  then show "xmem (hart_of (start_machine 0 (demo_image xs) 4096)) (4096 + of_nat k) = Some (xs ! k)
      \<and> \<not> xwr (hart_of (start_machine 0 (demo_image xs) 4096)) (4096 + of_nat k)"
    using k assms unfolding demo_image_hart
    by (simp add: unat_ucast_u64 demo_image_def guest_limit_def)
qed

text \<open>\<open>+>-\<close>.\<close>

theorem compiled_program_runs_witness:
  "\<exists>s c'. compile_stdin pf0 [43, 62, 45] zero_out = Inr s
    \<and> interpret_loop False 0 (demo_image (contents s)) 4096
        = Some (Assertion_failed ''not implemented'', c')
    \<and> xmem (hart_of c') 0 = Some 1 \<and> xmem (hart_of c') 1 = Some (- 1)"
proof -
  let ?ps = "[Plus, Gt, Minus]" and ?cell = "\<lambda>a :: u32. unat a < 4096"
  have t: "program_text ?ps = [43, 62, 45]" by (simp add: program_text_def)
  have l: "length (program_code ?ps) = 12"
    by (simp add: program_code_def prologue_def epilogue_def add_code_def)
  have g: "\<forall>c. grants pf0 c" by (simp add: pf0_def)
  obtain s where s: "compile_stdin pf0 [43, 62, 45] zero_out = Inr s" "contents s = le32s (program_code ?ps)"
    using compile_stdin_effect [OF g, of ?ps "[]"] l by (auto simp: t holds_def)
  let ?s' = "\<lparr>todo = [], tape = (\<lambda>_. 0)(0 := 1, 1 := - 1), ptr = 1\<rparr>"
  have it: "run (bf_step ?cell) 4 (bf_start ?ps) = Some (Done, ?s')"
    by (simp add: eval_nat_numeral bf_start_def bf_step_def set_cell_def move_to_def)
  have fin: "stop_call Done ?s' = Some (93, 0)" by simp
  have cells: "\<forall>a. ?cell a \<longrightarrow> unat a < guest_limit
      \<and> xwr (hart_of (start_machine 0 (demo_image (contents s)) 4096)) a
      \<and> xmem (hart_of (start_machine 0 (demo_image (contents s)) 4096)) a = Some 0"
    unfolding demo_image_hart by (auto simp: unat_ucast_u64 demo_image_def guest_limit_def)
  have "length (contents s) \<le> 4096" using s(2) l by simp
  note code = demo_image_code [OF this]
  have rem: "\<forall>p \<in> set ?ps. remarks_ok p" and len: "4 * length (program_code ?ps) \<le> 2 ^ 31"
    and al: "(0 :: u64) AND 3 = 0" "(4096 :: u32) AND 3 = 0" by (simp_all add: l)
  from compiled_program_runs [OF g rem len _ al refl code cells it fin] s(1)
  obtain c' where c': "interpret_loop False 0 (demo_image (contents s)) 4096
        = Some (Assertion_failed ''not implemented'', c')"
      "\<forall>a. ?cell a \<longrightarrow> xmem (hart_of c') a = Some (tape ?s' a)" unfolding t by blast
  have "xmem (hart_of c') 0 = Some (tape ?s' 0)" "xmem (hart_of c') 1 = Some (tape ?s' 1)"
    by (rule c'(2) [rule_format], simp)+
  moreover have "tape ?s' 0 = 1" "tape ?s' 1 = - 1" by simp_all
  ultimately show ?thesis using c'(1) s(1) by metis
qed

text \<open>
  Property C18. Programs that should end do end: whenever the RV32I specification, started at
  an aligned entry point and restricted to the instructions the emulator supports, reaches an
  \<open>ecall\<close>, the interpreter's loop returns, stopped at exactly that state by the missing
  system call.
\<close>

theorem reached_ecall_stops_emulator:
  assumes "base AND 3 = 0" "entry AND 3 = 0"
    and "iter (emulated_step False) n (hart_of (start_machine base m entry)) = Some h" "fetch h = Inr 0x73"
  shows "\<exists>c. interpret_loop False base m entry = Some (Assertion_failed ''not implemented'', c) \<and> hart_of c = h"
proof -
  have "machine_ok (start_machine base m entry)"
    using assms(1,2) by (simp add: machine_ok_def start_machine_def cpu_ok_def zero_cpu_def)
  from reached_ecall [OF this assms(3,4)] obtain c
    where c: "run (step False) (n + 1) (start_machine base m entry) = Some (Assertion_failed ''not implemented'', c)"
      "hart_of c = h" by blast
  from run_loop [OF c(1)] c(2) show ?thesis by (simp add: interpret_loop_def)
qed

text \<open>\<open>addi a7, zero, 93; ecall\<close>.\<close>

theorem reached_ecall_stops_emulator_witness:
  "\<exists>c. interpret_loop False 0 (demo_image (le32s [addi_word rv_a7 rv_zero 93, 0x73])) 4096
      = Some (Assertion_failed ''not implemented'', c) \<and> xreg (hart_of c) 17 = 93"
proof -
  let ?ws = "[addi_word rv_a7 rv_zero 93, 0x73]"
  let ?h = "hart_of (start_machine 0 (demo_image (le32s ?ws)) 4096)"
  have "length (le32s ?ws) \<le> 4096" by simp
  from demo_image_code [OF this] have "hart_at ?ws ?h" by (simp add: hart_at_def start_machine_def)
  moreover have z: "xreg ?h 0 = 0" by (simp add: read_register_def)
  ultimately have 1: "emulated_step False ?h = Inr (next_pc (set_x 17 93 ?h))"
    "hart_at [0x73] (next_pc (set_x 17 93 ?h))"
    using run_addi [OF _ imm_one(4), of rv_a7 rv_zero "[0x73]" ?h False] by simp_all
  have "fetch (next_pc (set_x 17 93 ?h)) = Inr 0x73"
    by (rule fetch_word) (use 1(2) in \<open>simp_all add: hart_at_def\<close>)
  from reached_ecall_stops_emulator [OF _ _ _ this, where base = 0 and entry = 4096 and m = "demo_image (le32s ?ws)" and n = 1] 1(1) obtain c
    where "interpret_loop False 0 (demo_image (le32s ?ws)) 4096 = Some (Assertion_failed ''not implemented'', c)"
      "hart_of c = next_pc (set_x 17 93 ?h)" by auto
  then show ?thesis by (intro exI [of _ c]) simp
qed

end
