(* ===== verification/Elf_Format.thy ===== *)
theory Elf_Format
  imports Outcome
begin

text \<open>
  The 32-bit little-endian ELF structures that loader.c overlays on the mapped file and that
  bfc.c writes: records with the members the programs use, and the bytes they are read
  from.  A file is the list of the bytes that are mapped; a read past it is an error.
\<close>

section \<open>Reading the mapped file\<close>

definition read_range :: "u8 list \<Rightarrow> nat \<Rightarrow> nat \<Rightarrow> u8 list result" where
  "read_range img off n =
     (if n = 0 \<or> off + n \<le> length img then Inr (take n (drop off img))
      else Inl (Undefined ''read past the mapping''))"

definition write_range :: "u8 list \<Rightarrow> nat \<Rightarrow> u8 list \<Rightarrow> u8 list result" where
  "write_range img off xs =
     (if xs = [] then Inr img
      else if off + length xs \<le> length img then Inr (take off img @ xs @ drop (off + length xs) img)
      else Inl (Undefined ''write past the mapping''))"

definition of_le16 :: "u8 \<Rightarrow> u8 \<Rightarrow> u16" where
  "of_le16 a b = ucast a OR push_bit 8 (ucast b)"

definition rd16 :: "u8 list \<Rightarrow> nat \<Rightarrow> u16 result" where
  "rd16 img off = bind_r (read_range img off 2) (\<lambda>bs. Inr (of_le16 (bs ! 0) (bs ! 1)))"

definition rd32 :: "u8 list \<Rightarrow> nat \<Rightarrow> u32 result" where
  "rd32 img off = bind_r (read_range img off 4)
     (\<lambda>bs. Inr (of_le32 (bs ! 0) (bs ! 1) (bs ! 2) (bs ! 3)))"

section \<open>The structures\<close>

record elf32_ehdr =
  e_machine :: u16
  e_entry :: u32
  e_phoff :: u32
  e_shoff :: u32
  e_phentsize :: u16
  e_phnum :: u16
  e_shnum :: u16
  e_shstrndx :: u16

record elf32_phdr =
  p_type :: u32
  p_offset :: u32
  p_vaddr :: u32
  p_paddr :: u32
  p_filesz :: u32
  p_memsz :: u32
  p_flags :: u32
  p_align :: u32

definition sizeof_phdr :: nat where "sizeof_phdr = 32"
definition sizeof_shdr :: nat where "sizeof_shdr = 40"
definition sizeof_sym :: nat where "sizeof_sym = 16"
definition sizeof_rela :: nat where "sizeof_rela = 12"

definition PT_LOAD :: u32 where "PT_LOAD = 1"
definition PT_INTERP :: u32 where "PT_INTERP = 3"
definition PF_X :: u32 where "PF_X = 1"
definition PF_W :: u32 where "PF_W = 2"
definition PF_R :: u32 where "PF_R = 4"
definition SHT_RELA :: u32 where "SHT_RELA = 4"
definition EM_RISCV :: u16 where "EM_RISCV = 243"
definition R_RISCV_HI20 :: u32 where "R_RISCV_HI20 = 26"
definition ENOEXEC :: u32 where "ENOEXEC = 8"

definition read_ehdr :: "u8 list \<Rightarrow> elf32_ehdr result" where
  "read_ehdr img =
     bind_r (rd16 img 18) (\<lambda>machine. bind_r (rd32 img 24) (\<lambda>entry.
     bind_r (rd32 img 28) (\<lambda>phoff. bind_r (rd32 img 32) (\<lambda>shoff.
     bind_r (rd16 img 42) (\<lambda>phentsize. bind_r (rd16 img 44) (\<lambda>phnum.
     bind_r (rd16 img 48) (\<lambda>shnum. bind_r (rd16 img 50) (\<lambda>shstrndx.
       Inr \<lparr>e_machine = machine, e_entry = entry, e_phoff = phoff, e_shoff = shoff,
         e_phentsize = phentsize, e_phnum = phnum, e_shnum = shnum, e_shstrndx = shstrndx\<rparr>))))))))"

definition read_phdr :: "u8 list \<Rightarrow> nat \<Rightarrow> elf32_phdr result" where
  "read_phdr img off =
     bind_r (rd32 img off) (\<lambda>ty. bind_r (rd32 img (off + 4)) (\<lambda>offset.
     bind_r (rd32 img (off + 8)) (\<lambda>vaddr. bind_r (rd32 img (off + 12)) (\<lambda>paddr.
     bind_r (rd32 img (off + 16)) (\<lambda>filesz.
     bind_r (rd32 img (off + 20)) (\<lambda>memsz. bind_r (rd32 img (off + 24)) (\<lambda>fl.
     bind_r (rd32 img (off + 28)) (\<lambda>align.
       Inr \<lparr>p_type = ty, p_offset = offset, p_vaddr = vaddr, p_paddr = paddr, p_filesz = filesz,
         p_memsz = memsz, p_flags = fl, p_align = align\<rparr>))))))))"

text \<open>The members of a section header, by their offsets, as the code reads them one by one.\<close>

definition sh_name :: "u8 list \<Rightarrow> nat \<Rightarrow> u32 result" where "sh_name img off = rd32 img off"
definition sh_type :: "u8 list \<Rightarrow> nat \<Rightarrow> u32 result" where "sh_type img off = rd32 img (off + 4)"
definition sh_addr :: "u8 list \<Rightarrow> nat \<Rightarrow> u32 result" where "sh_addr img off = rd32 img (off + 12)"
definition sh_offset :: "u8 list \<Rightarrow> nat \<Rightarrow> u32 result" where "sh_offset img off = rd32 img (off + 16)"
definition sh_size :: "u8 list \<Rightarrow> nat \<Rightarrow> u32 result" where "sh_size img off = rd32 img (off + 20)"
definition sh_link :: "u8 list \<Rightarrow> nat \<Rightarrow> u32 result" where "sh_link img off = rd32 img (off + 24)"
definition sh_info :: "u8 list \<Rightarrow> nat \<Rightarrow> u32 result" where "sh_info img off = rd32 img (off + 28)"
definition sh_entsize :: "u8 list \<Rightarrow> nat \<Rightarrow> u32 result" where "sh_entsize img off = rd32 img (off + 36)"

end
