(* ===== verification/C_String.thy ===== *)
theory C_String
  imports Main
begin

text \<open>
  Command-line arguments: C strings as lists of characters, without the terminator.
\<close>

text \<open>
  Comparing strings: \<open>strncmp(a, b, n) == 0\<close>, with the terminators.  With \<open>n\<close> the size
  of a literal, this is equality with the literal.
\<close>

definition same_prefix :: "string \<Rightarrow> string \<Rightarrow> nat \<Rightarrow> bool" where
  "same_prefix a b n \<longleftrightarrow> take n (a @ [CHR 0x00]) = take n (b @ [CHR 0x00])"

lemma same_prefix_literal:
  "CHR 0x00 \<notin> set b \<Longrightarrow> CHR 0x00 \<notin> set a \<Longrightarrow> same_prefix a b (Suc (length b)) \<longleftrightarrow> a = b"
proof (induction b arbitrary: a)
  case Nil
  then show ?case by (cases a) (auto simp: same_prefix_def)
next
  case (Cons c b)
  show ?case
  proof (cases a)
    case (Cons d a')
    then have "same_prefix a (c # b) (Suc (length (c # b))) \<longleftrightarrow> d = c \<and> same_prefix a' b (Suc (length b))"
      by (simp add: same_prefix_def)
    with Cons Cons.IH [of a'] Cons.prems show ?thesis by auto
  qed (use Cons.prems in \<open>auto simp: same_prefix_def\<close>)
qed

end
