(* ===== verification/Bf_Elf.thy ===== *)
theory Bf_Elf
  imports Bf_Compile Elf_Format C_String
begin

text \<open>
  bfc.c: writing the result.  \<open>emit_elf\<close> wraps the code in an ELF file with a data segment,
  a text segment, symbols and relocations; \<open>emit_raw\<close> writes bytes to \<open>a.out\<close>; and
  \<open>bfc_main\<close> is \<open>main\<close>.  The headers are written in place, through pointers into the
  buffer at the offsets where they were reserved.  Consecutive assignments to all the members
  of one header are one store of the header.
\<close>

section \<open>The structures, as they lie in memory\<close>

record elf32_shdr =
  shdr_name :: u32
  shdr_type :: u32
  shdr_flags :: u32
  shdr_addr :: u32
  shdr_offset :: u32
  shdr_size :: u32
  shdr_link :: u32
  shdr_info :: u32
  shdr_addralign :: u32
  shdr_entsize :: u32

record elf32_sym =
  st_name :: u32
  st_value :: u32
  st_size :: u32
  st_info :: u8
  st_other :: u8
  st_shndx :: u16

record elf32_rela =
  r_offset :: u32
  r_info :: u32
  r_addend :: u32

definition shdr_words :: "elf32_shdr \<Rightarrow> u32 list" where
  "shdr_words h = [shdr_name h, shdr_type h, shdr_flags h, shdr_addr h, shdr_offset h,
     shdr_size h, shdr_link h, shdr_info h, shdr_addralign h, shdr_entsize h]"

definition phdr_words :: "elf32_phdr \<Rightarrow> u32 list" where
  "phdr_words h = [p_type h, p_offset h, p_vaddr h, p_paddr h, p_filesz h, p_memsz h, p_flags h, p_align h]"

definition sym_bytes :: "elf32_sym \<Rightarrow> u8 list" where
  "sym_bytes s = le32s [st_name s, st_value s, st_size s] @ [st_info s, st_other s] @ le16 (st_shndx s)"

definition rela_words :: "elf32_rela \<Rightarrow> u32 list" where
  "rela_words r = [r_offset r, r_info r, r_addend r]"

definition zero_shdr :: elf32_shdr where
  "zero_shdr = \<lparr>shdr_name = 0, shdr_type = 0, shdr_flags = 0, shdr_addr = 0, shdr_offset = 0,
     shdr_size = 0, shdr_link = 0, shdr_info = 0, shdr_addralign = 0, shdr_entsize = 0\<rparr>"

definition SHT_PROGBITS :: u32 where "SHT_PROGBITS = 1"
definition SHT_SYMTAB :: u32 where "SHT_SYMTAB = 2"
definition SHT_STRTAB :: u32 where "SHT_STRTAB = 3"
definition SHT_NOBITS :: u32 where "SHT_NOBITS = 8"
definition SHT_RISCV_ATTRIBUTES :: u32 where "SHT_RISCV_ATTRIBUTES = 0x70000003"
definition PT_RISCV_ATTRIBUTES :: u32 where "PT_RISCV_ATTRIBUTES = 0x70000003"
definition SHF_WRITE :: u32 where "SHF_WRITE = 1"
definition SHF_ALLOC :: u32 where "SHF_ALLOC = 2"
definition SHF_EXECINSTR :: u32 where "SHF_EXECINSTR = 4"
definition SHF_STRINGS :: u32 where "SHF_STRINGS = 0x20"
definition STT_OBJECT :: u8 where "STT_OBJECT = 1"
definition STT_FUNC :: u8 where "STT_FUNC = 2"

definition ELF32_R_INFO :: "u32 \<Rightarrow> u32 \<Rightarrow> u32" where
  "ELF32_R_INFO symbol ty = push_bit 8 symbol + (ty AND 0xff)"

definition ELF32_ST_INFO :: "u8 \<Rightarrow> u8 \<Rightarrow> u8" where
  "ELF32_ST_INFO binding ty = push_bit 4 binding + (ty AND 0xf)"

section \<open>The state of the writer\<close>

record rospan =
  span_bytes :: "u8 list"
  span_len :: u32

record elf_writer =
  elf :: out
  shstrtab :: out
  strtab :: out
  symtab :: out

text \<open>The locals of \<open>emit_elf\<close> that are fixed before the headers are filled in.\<close>

record elf_locals =
  elf_page :: u32
  phoff :: u32
  shoff :: u32
  data_begin_virt :: u32
  insns_begin_virt :: u32
  insns_begin_elf :: u32
  insns_len :: u32

text \<open>Indices of segments and sections, in the order of their counters.\<close>

definition data_segm :: u32 where "data_segm = 0"
definition text_segm :: u32 where "text_segm = 1"
definition riscv_attr_segm :: u32 where "riscv_attr_segm = 2"
definition segment_count :: u32 where "segment_count = 3"
definition null_shdr :: u32 where "null_shdr = 0"
definition data_shdr :: u32 where "data_shdr = 1"
definition text_shdr :: u32 where "text_shdr = 2"
definition rela_shdr :: u32 where "rela_shdr = 3"
definition symtab_shdr :: u32 where "symtab_shdr = 4"
definition strtab_shdr :: u32 where "strtab_shdr = 5"
definition shstrtab_shdr :: u32 where "shstrtab_shdr = 6"
definition riscv_attr_shdr :: u32 where "riscv_attr_shdr = 7"
definition section_count :: u32 where "section_count = 8"

section \<open>Operations of the writer\<close>

text \<open>A string literal in memory, with its terminator.\<close>

definition c_string :: "string \<Rightarrow> u8 list" where
  "c_string name = map of_char name @ [0]"

definition strtab_add :: "platform \<Rightarrow> string \<Rightarrow> out \<Rightarrow> (u32 \<times> out) result" where
  "strtab_add pf name s =
     (let length = of_nat (length name) + 1 in out_write_index pf (c_string name) length s)"

definition add_shstr :: "platform \<Rightarrow> string \<Rightarrow> elf_writer \<Rightarrow> (u32 \<times> elf_writer) result" where
  "add_shstr pf name w =
     bind_r (strtab_add pf name (shstrtab w)) (\<lambda>(i, s). Inr (i, w\<lparr>shstrtab := s\<rparr>))"

definition add_str :: "platform \<Rightarrow> string \<Rightarrow> elf_writer \<Rightarrow> (u32 \<times> elf_writer) result" where
  "add_str pf name w =
     bind_r (strtab_add pf name (strtab w)) (\<lambda>(i, s). Inr (i, w\<lparr>strtab := s\<rparr>))"

definition store_shdr :: "elf_locals \<Rightarrow> u32 \<Rightarrow> elf32_shdr \<Rightarrow> elf_writer \<Rightarrow> elf_writer result" where
  "store_shdr L i h w =
     bind_r (poke (shoff L + 40 * i) (le32s (shdr_words h)) (elf w)) (\<lambda>s. Inr (w\<lparr>elf := s\<rparr>))"

definition store_phdr :: "elf_locals \<Rightarrow> u32 \<Rightarrow> elf32_phdr \<Rightarrow> elf_writer \<Rightarrow> elf_writer result" where
  "store_phdr L i h w =
     bind_r (poke (phoff L + 32 * i) (le32s (phdr_words h)) (elf w)) (\<lambda>s. Inr (w\<lparr>elf := s\<rparr>))"

definition store_sym :: "u32 \<Rightarrow> elf32_sym \<Rightarrow> elf_writer \<Rightarrow> elf_writer result" where
  "store_sym i h w =
     bind_r (poke (16 * i) (sym_bytes h) (symtab w)) (\<lambda>s. Inr (w\<lparr>symtab := s\<rparr>))"

definition append_elf :: "platform \<Rightarrow> rospan \<Rightarrow> elf_writer \<Rightarrow> (u32 \<times> elf_writer) result" where
  "append_elf pf sp w =
     bind_r (out_write_index pf (span_bytes sp) (span_len sp) (elf w)) (\<lambda>(i, s). Inr (i, w\<lparr>elf := s\<rparr>))"

definition span_of :: "out \<Rightarrow> rospan" where
  "span_of s = \<lparr>span_bytes = bytes s, span_len = len s\<rparr>"

section \<open>The parts of \<open>emit_elf\<close>\<close>

definition null_header :: "platform \<Rightarrow> elf_locals \<Rightarrow> elf_writer \<Rightarrow> elf_writer result" where
  "null_header pf L w =
     bind_r (store_shdr L null_shdr zero_shdr w) (\<lambda>w.
     bind_r (add_shstr pf '''' w) (\<lambda>(name, w).
       store_shdr L null_shdr (zero_shdr\<lparr>shdr_name := name\<rparr>) w))"

definition text_section :: "elf_locals \<Rightarrow> u32 \<Rightarrow> elf32_shdr" where
  "text_section L name =
     \<lparr>shdr_name = name, shdr_type = SHT_PROGBITS, shdr_flags = SHF_ALLOC OR SHF_EXECINSTR,
      shdr_addr = insns_begin_virt L, shdr_offset = insns_begin_elf L, shdr_size = insns_len L,
      shdr_link = 0, shdr_info = 0, shdr_addralign = elf_page L, shdr_entsize = 0\<rparr>"

definition text_segment :: "elf_locals \<Rightarrow> elf32_phdr" where
  "text_segment L =
     \<lparr>p_type = PT_LOAD, p_offset = insns_begin_elf L, p_vaddr = insns_begin_virt L,
      p_paddr = insns_begin_virt L, p_filesz = insns_len L, p_memsz = insns_len L,
      p_flags = PF_R OR PF_X, p_align = elf_page L\<rparr>"

definition text_headers :: "platform \<Rightarrow> elf_locals \<Rightarrow> elf_writer \<Rightarrow> elf_writer result" where
  "text_headers pf L w =
     bind_r (add_shstr pf ''.text'' w) (\<lambda>(name, w).
     bind_r (store_shdr L text_shdr (text_section L name) w)
       (store_phdr L text_segm (text_segment L)))"

definition data_section :: "elf_locals \<Rightarrow> u32 \<Rightarrow> elf32_shdr" where
  "data_section L name =
     \<lparr>shdr_name = name, shdr_type = SHT_NOBITS, shdr_flags = SHF_ALLOC OR SHF_WRITE,
      shdr_addr = data_begin_virt L, shdr_offset = insns_begin_elf L + insns_len L,
      shdr_size = 3 * 1024, shdr_link = 0, shdr_info = 0, shdr_addralign = elf_page L,
      shdr_entsize = 0\<rparr>"

definition data_segment :: "elf_locals \<Rightarrow> elf32_phdr" where
  "data_segment L =
     \<lparr>p_type = PT_LOAD, p_offset = insns_begin_elf L + insns_len L, p_vaddr = data_begin_virt L,
      p_paddr = data_begin_virt L, p_filesz = 0, p_memsz = 3 * 1024, p_flags = PF_R OR PF_W,
      p_align = elf_page L\<rparr>"

definition data_headers :: "platform \<Rightarrow> elf_locals \<Rightarrow> elf_writer \<Rightarrow> elf_writer result" where
  "data_headers pf L w =
     bind_r (add_shstr pf ''.data'' w) (\<lambda>(name, w).
     bind_r (store_shdr L data_shdr (data_section L name) w)
       (store_phdr L data_segm (data_segment L)))"

text \<open>Writes nothing yet.\<close>

definition emit_riscv_attributes :: "out \<Rightarrow> out" where
  "emit_riscv_attributes s = s"

definition attributes_section :: "u32 \<Rightarrow> u32 \<Rightarrow> u32 \<Rightarrow> elf32_shdr" where
  "attributes_section riscv_attr_begin riscv_attr_len name =
     zero_shdr\<lparr>shdr_name := name, shdr_type := SHT_RISCV_ATTRIBUTES,
       shdr_offset := riscv_attr_begin, shdr_size := riscv_attr_len, shdr_addralign := 1\<rparr>"

definition attributes_segment :: "u32 \<Rightarrow> u32 \<Rightarrow> elf32_phdr" where
  "attributes_segment riscv_attr_begin riscv_attr_len =
     \<lparr>p_type = PT_RISCV_ATTRIBUTES, p_offset = riscv_attr_begin, p_vaddr = 0, p_paddr = 0,
      p_filesz = riscv_attr_len, p_memsz = 0, p_flags = PF_R, p_align = 1\<rparr>"

definition attributes_headers :: "platform \<Rightarrow> elf_locals \<Rightarrow> elf_writer \<Rightarrow> elf_writer result" where
  "attributes_headers pf L w =
     (let riscv_attr_begin = len (elf w);
          w = w\<lparr>elf := emit_riscv_attributes (elf w)\<rparr>;
          riscv_attr_len = len (elf w) - riscv_attr_begin
      in bind_r (add_shstr pf ''.riscv.attributes'' w) (\<lambda>(name, w).
         bind_r (store_shdr L riscv_attr_shdr (attributes_section riscv_attr_begin riscv_attr_len name) w)
           (store_phdr L riscv_attr_segm (attributes_segment riscv_attr_begin riscv_attr_len))))"

text \<open>The symbol of the tape, and the two relocations against it, both of the same type.\<close>

definition resv_sym :: "platform \<Rightarrow> elf_writer \<Rightarrow> elf_writer" where
  "resv_sym pf w = (let (_, s) = out_resv pf 16 (symtab w) in w\<lparr>symtab := s\<rparr>)"

definition data_sym :: "u32 \<Rightarrow> elf32_sym" where
  "data_sym name =
     \<lparr>st_name = name, st_value = 0, st_size = 3 * 1024, st_info = ELF32_ST_INFO 0 STT_OBJECT,
      st_other = 0, st_shndx = ucast data_shdr\<rparr>"

definition data_symbol :: "platform \<Rightarrow> elf_writer \<Rightarrow> elf_writer result" where
  "data_symbol pf w =
     bind_r (add_str pf ''_bf_data'' (resv_sym pf w)) (\<lambda>(name, w). store_sym 0 (data_sym name) w)"

definition lui_rela :: elf32_rela where
  "lui_rela = \<lparr>r_offset = 0, r_info = ELF32_R_INFO 0 R_RISCV_HI20, r_addend = 0\<rparr>"

definition addi_rela :: elf32_rela where
  "addi_rela = \<lparr>r_offset = 4, r_info = ELF32_R_INFO 0 R_RISCV_HI20, r_addend = 0\<rparr>"

definition rela_section :: "u32 \<Rightarrow> u32 \<Rightarrow> elf32_shdr" where
  "rela_section rela_offt name =
     \<lparr>shdr_name = name, shdr_type = SHT_RELA, shdr_flags = 0, shdr_addr = 0,
      shdr_offset = rela_offt, shdr_size = 2 * 12, shdr_link = symtab_shdr,
      shdr_info = text_shdr, shdr_addralign = 0, shdr_entsize = 12\<rparr>"

definition relocations :: "platform \<Rightarrow> elf_locals \<Rightarrow> elf_writer \<Rightarrow> elf_writer result" where
  "relocations pf L w =
     (let (rela_offt, s) = out_resv_index pf (2 * 12) (elf w)
      in bind_r (poke rela_offt (le32s (rela_words lui_rela)) s) (\<lambda>s.
         bind_r (poke (rela_offt + 12) (le32s (rela_words addi_rela)) s) (\<lambda>s.
         bind_r (add_shstr pf ''.rela.text'' (w\<lparr>elf := s\<rparr>)) (\<lambda>(name, w).
           store_shdr L rela_shdr (rela_section rela_offt name) w))))"

definition entry_sym :: "elf_locals \<Rightarrow> u32 \<Rightarrow> elf32_sym" where
  "entry_sym L name =
     \<lparr>st_name = name, st_value = 0, st_size = insns_len L, st_info = ELF32_ST_INFO 0 STT_FUNC,
      st_other = 0, st_shndx = ucast text_shdr\<rparr>"

definition entry_symbol :: "platform \<Rightarrow> elf_locals \<Rightarrow> elf_writer \<Rightarrow> elf_writer result" where
  "entry_symbol pf L w =
     bind_r (add_str pf ''_bf_entry'' (resv_sym pf w)) (\<lambda>(name, w). store_sym 1 (entry_sym L name) w)"

definition symtab_section :: "u32 \<Rightarrow> u32 \<Rightarrow> u32 \<Rightarrow> elf32_shdr" where
  "symtab_section start count name =
     \<lparr>shdr_name = name, shdr_type = SHT_SYMTAB, shdr_flags = 0, shdr_addr = 0,
      shdr_offset = start, shdr_size = count, shdr_link = strtab_shdr, shdr_info = 2,
      shdr_addralign = 1, shdr_entsize = 16\<rparr>"

definition symbol_table :: "platform \<Rightarrow> elf_locals \<Rightarrow> elf_writer \<Rightarrow> elf_writer result" where
  "symbol_table pf L w =
     bind_r (append_elf pf (span_of (symtab w)) w) (\<lambda>(symtab_elf_begin, w).
     bind_r (add_shstr pf ''.symtab'' w) (\<lambda>(name, w).
       store_shdr L symtab_shdr (symtab_section symtab_elf_begin (len (symtab w)) name) w))"

definition strings_section :: "u32 \<Rightarrow> u32 \<Rightarrow> u32 \<Rightarrow> elf32_shdr" where
  "strings_section start count name =
     \<lparr>shdr_name = name, shdr_type = SHT_STRTAB, shdr_flags = SHF_STRINGS, shdr_addr = 0,
      shdr_offset = start, shdr_size = count, shdr_link = 0, shdr_info = 0,
      shdr_addralign = 1, shdr_entsize = 1\<rparr>"

definition string_table :: "platform \<Rightarrow> elf_locals \<Rightarrow> elf_writer \<Rightarrow> elf_writer result" where
  "string_table pf L w =
     bind_r (append_elf pf (span_of (strtab w)) w) (\<lambda>(strtab_elf_begin, w).
     bind_r (add_shstr pf ''.strtab'' w) (\<lambda>(name, w).
       store_shdr L strtab_shdr (strings_section strtab_elf_begin (len (strtab w)) name) w))"

text \<open>
  The offset of the last table is assigned through the buffer's pointer in the same expression
  that appends the table and may move the buffer: \<open>left_first\<close> says that the compiler
  computes the address before the call, which C allows.  Then the store misses the buffer
  when the call moved it.
\<close>

definition section_names :: "bool \<Rightarrow> platform \<Rightarrow> elf_locals \<Rightarrow> elf_writer \<Rightarrow> elf_writer result" where
  "section_names left_first pf L w =
     bind_r (add_shstr pf ''.shstrtab'' w) (\<lambda>(name, w).
     bind_r (append_elf pf (span_of (shstrtab w)) w) (\<lambda>(offset, w').
       if left_first \<and> cap (elf w') \<noteq> cap (elf w) then Inl (Undefined ''store into a freed block'')
       else store_shdr L shstrtab_shdr (strings_section offset (len (shstrtab w')) name) w'))"

definition ehdr_bytes :: "elf_locals \<Rightarrow> u8 list" where
  "ehdr_bytes L =
     [0x7f, 69, 76, 70, 1, 1, 1, 0, 0] @ replicate 7 0
     @ le16 2 @ le16 EM_RISCV @ le32 1 @ le32 (insns_begin_virt L) @ le32 (phoff L) @ le32 (shoff L)
     @ le32 0 @ le16 52 @ le16 32 @ le16 (ucast segment_count) @ le16 40
     @ le16 (ucast section_count) @ le16 (ucast shstrtab_shdr)"

definition file_header :: "elf_locals \<Rightarrow> elf_writer \<Rightarrow> elf_writer result" where
  "file_header L w = bind_r (poke 0 (ehdr_bytes L) (elf w)) (\<lambda>s. Inr (w\<lparr>elf := s\<rparr>))"

text \<open>The virtual address of the code: the end of the data, rounded up to a page.\<close>

definition code_address :: "u32 \<Rightarrow> u32 \<Rightarrow> u32" where
  "code_address data page =
     (let virt = data + 3 * 1024; virt = virt + (page - 1) in virt AND NOT (page - 1))"

definition popcount :: "u64 \<Rightarrow> nat" where
  "popcount w = length (filter (bit w) [0..<64])"

definition elf_parts :: "bool \<Rightarrow> platform \<Rightarrow> elf_locals \<Rightarrow> (elf_writer \<Rightarrow> elf_writer result) list" where
  "elf_parts left_first pf L =
     [null_header pf L, text_headers pf L, data_headers pf L, attributes_headers pf L,
      data_symbol pf, relocations pf L, entry_symbol pf L, symbol_table pf L, string_table pf L,
      section_names left_first pf L, file_header L]"

definition emit_elf :: "bool \<Rightarrow> bool \<Rightarrow> platform \<Rightarrow> u32 \<Rightarrow> rospan \<Rightarrow> rospan result" where
  "emit_elf ndebug left_first pf page sp =
     (let (_, s) = out_resv_index pf 52 zero_out;
          (segments, s) = out_resv_index pf (32 * segment_count) s;
          (sections, s) = out_resv_index pf (40 * section_count) s;
          data = 0x10000
      in if \<not> ndebug \<and> popcount (ucast page) \<noteq> 1
         then Inl (Assertion_failed ''__builtin_popcountll(page_size) == 1'')
         else bind_r (append_elf pf sp \<lparr>elf = s, shstrtab = zero_out, strtab = zero_out, symtab = zero_out\<rparr>)
           (\<lambda>(begin_elf, w).
         let L = \<lparr>elf_page = page, phoff = segments, shoff = sections, data_begin_virt = data,
                insns_begin_virt = code_address data page,
                insns_begin_elf = begin_elf, insns_len = span_len sp\<rparr>
         in bind_r (seq_r (elf_parts left_first pf L) w) (\<lambda>w. Inr (span_of (elf w)))))"

section \<open>The program\<close>

text \<open>
  Writing \<open>a.out\<close>: what the file system allows is a parameter.  The result is the new
  contents of the file, or \<open>None\<close> when it is not opened.  Neither failure changes the exit
  status.
\<close>

record out_file =
  opens :: bool
  accepts :: "u32 \<Rightarrow> u32 option"    \<comment> \<open>of a count, how many bytes \<open>write\<close> takes, or an error\<close>

definition emit_raw :: "out_file \<Rightarrow> rospan \<Rightarrow> u8 list option" where
  "emit_raw fs sp =
     (if \<not> opens fs then None
      else case accepts fs (span_len sp) of
             None \<Rightarrow> Some []
           | Some n \<Rightarrow> Some (take (unat n) (span_bytes sp)))"

datatype emit_mode = emit_mode_elf | emit_mode_raw

definition emit_mode_of :: "string list \<Rightarrow> emit_mode" where
  "emit_mode_of argv =
     (if length argv = 2 \<and> same_prefix (argv ! 1) ''--raw'' 6 then emit_mode_raw else emit_mode_elf)"

text \<open>\<open>main\<close>: from the arguments and the standard input to \<open>a.out\<close>.\<close>

definition bfc_main ::
  "bool \<Rightarrow> bool \<Rightarrow> platform \<Rightarrow> u32 \<Rightarrow> out_file \<Rightarrow> string list \<Rightarrow> u8 list \<Rightarrow> u8 list option result" where
  "bfc_main ndebug left_first pf page fs argv stdin =
     bind_r (compile_stdin pf stdin zero_out) (\<lambda>s.
       case emit_mode_of argv of
         emit_mode_elf \<Rightarrow> bind_r (emit_elf ndebug left_first pf page (span_of s)) (\<lambda>r. Inr (emit_raw fs r))
       | emit_mode_raw \<Rightarrow> Inr (emit_raw fs (span_of s)))"

end
