(* ===== verification/Bf_Image.thy ===== *)
theory Bf_Image
  imports Bf_Elf
begin

text \<open>
  What \<open>emit_elf\<close> writes: a list of chunks, one for each header and one for each part of the
  body.  Appending adds a chunk and filling in a header replaces one, so the file does not
  depend on what the reserved memory held.
\<close>

section \<open>Buffers as lists of chunks\<close>

text \<open>
  A sink of bytes whose written part can be overwritten: what filling in headers relies on.
  Appending adds a chunk, overwriting a chunk with one of the same length replaces it.
\<close>

lemma concat_update:
  assumes "i < length cs" "length xs = length (cs ! i)"
  shows "concat (cs[i := xs]) = take (length (concat (take i cs))) (concat cs) @ xs
    @ drop (length (concat (take i cs)) + length xs) (concat cs)"
    "length (concat (take i cs)) + length xs \<le> length (concat cs)"
proof -
  have "cs = take i cs @ cs ! i # drop (Suc i) cs" using assms(1) by (rule id_take_nth_drop)
  then have c: "concat cs = concat (take i cs) @ cs ! i @ concat (drop (Suc i) cs)"
    by (metis concat.simps(2) concat_append)
  then show "concat (cs[i := xs]) = take (length (concat (take i cs))) (concat cs) @ xs
      @ drop (length (concat (take i cs)) + length xs) (concat cs)"
    using assms by (simp add: upd_conv_take_nth_drop)
  show "length (concat (take i cs)) + length xs \<le> length (concat cs)"
    using arg_cong [OF c, of length] assms(2) by simp
qed

locale chunk_buffer = byte_sink +
  fixes overwrite :: "nat \<Rightarrow> u8 list \<Rightarrow> 's \<Rightarrow> 's result"
  assumes overwrite_ok: "ok s \<Longrightarrow> at + length xs \<le> length (data s) \<Longrightarrow>
    \<exists>s'. overwrite at xs s = Inr s' \<and> ok s'
      \<and> data s' = take at (data s) @ xs @ drop (at + length xs) (data s)"
begin

lemma store_chunk:
  assumes "ok s" "data s = concat cs" "i < length cs" "length xs = length (cs ! i)"
  shows "\<exists>s'. overwrite (length (concat (take i cs))) xs s = Inr s' \<and> ok s' \<and> data s' = concat (cs[i := xs])"
  using overwrite_ok [OF assms(1), of "length (concat (take i cs))" xs] concat_update [OF assms(3,4)] assms(2)
  by simp

lemma append_chunk:
  assumes "ok s" "data s = concat cs" "fits (length xs) s"
  shows "\<exists>s'. put xs s = Inr s' \<and> ok s' \<and> data s' = concat (cs @ [xs])"
  using put_ok [OF assms(1), of xs 0] assms(2,3) by auto

end

text \<open>\<open>poke\<close> at an offset that is a number.\<close>

definition poke_at :: "nat \<Rightarrow> u8 list \<Rightarrow> out \<Rightarrow> out result" where
  "poke_at at xs s = poke (of_nat at) xs s"

lemma unat_u32_of_nat: "k < 2 ^ 32 \<Longrightarrow> unat (of_nat k :: u32) = k"
  by (simp only: unat_of_nat) (simp add: take_bit_nat_eq_self)

lemma poke_at_effect:
  assumes "out_ok s" "at + length xs \<le> length (contents s)"
  shows "\<exists>s'. poke_at at xs s = Inr s' \<and> out_ok s'
    \<and> contents s' = take at (contents s) @ xs @ drop (at + length xs) (contents s)"
proof -
  have "at \<le> unat (len s)" using assms(2) unfolding length_contents [OF assms(1)] by simp
  then have u: "unat (of_nat at :: u32) = at" using unat_u32_less [of "len s"] by (intro unat_u32_of_nat) simp
  then have "unat (of_nat at :: u32) + length xs \<le> unat (len s)"
    using assms(2) unfolding length_contents [OF assms(1)] by simp
  from poke_effect [OF assms(1) this] u show ?thesis unfolding poke_at_def by metis
qed

interpretation chunks: chunk_buffer "put_bytes pf" contents out_ok "room pf" poke_at for pf
  by unfold_locales (rule poke_at_effect)

definition laid :: "u8 list list \<Rightarrow> out \<Rightarrow> bool" where
  "laid cs s \<longleftrightarrow> out_ok s \<and> contents s = concat cs"

lemma laid_len: "laid cs s \<Longrightarrow> unat (len s) = length (concat cs)"
  using length_contents by (force simp: laid_def)

lemma laid_index: "laid cs s \<Longrightarrow> len s = of_nat (length (concat cs))"
  using laid_len [of cs s] by (metis of_nat_unat ucast_id)

lemma laid_store:
  assumes "laid cs s" "i < length cs" "length xs = length (cs ! i)"
    "unat at = length (concat (take i cs))"
  shows "\<exists>s'. poke at xs s = Inr s' \<and> laid (cs[i := xs]) s'"
proof -
  have "of_nat (length (concat (take i cs))) = at" using assms(4) by (metis of_nat_unat ucast_id)
  then show ?thesis
    using chunks.store_chunk [of s cs i xs] assms(1-3) by (simp add: laid_def poke_at_def)
qed

lemma laid_resv:
  assumes "laid cs s" "\<forall>c. grants pf c" "length (concat cs) + unat count \<le> 2 ^ 31"
  shows "\<exists>s' fresh. out_resv pf count s = (of_nat (length (concat cs)), s') \<and> laid (cs @ [fresh]) s'
    \<and> length fresh = unat count"
proof -
  have "room pf (unat count) s" using assms laid_len [OF assms(1)] by (simp add: room_def)
  moreover have "out_ok s" using assms(1) by (simp add: laid_def)
  ultimately obtain s' fresh where "out_resv pf count s = (len s, s')" "out_ok s'"
      "length fresh = unat count" "contents s' = contents s @ fresh"
    using out_resv_effect by metis
  then show ?thesis using assms(1) laid_index [OF assms(1)] by (auto simp: laid_def)
qed

lemma laid_append:
  assumes "laid cs s" "\<forall>c. grants pf c" "unat count \<le> length src"
    "length (concat cs) + unat count \<le> 2 ^ 31"
  shows "\<exists>s'. out_write_index pf src count s = Inr (of_nat (length (concat cs)), s')
    \<and> laid (cs @ [take (unat count) src]) s'"
proof -
  have "room pf (length (take (unat count) src)) s"
    using assms laid_len [OF assms(1)] by (simp add: room_def)
  with chunks.append_chunk [of s cs pf "take (unat count) src"] show ?thesis
    using assms(1,3) laid_index [OF assms(1)]
    by (auto simp: out_write_index_def out_write_put laid_def)
qed

lemma laid_split: "laid (cs @ [xs @ ys]) s \<longleftrightarrow> laid (cs @ [xs, ys]) s"
  by (simp add: laid_def)

lemma laid_zero [simp]: "laid [] zero_out"
  by (simp add: laid_def)

lemma split_chunks:
  "length xs = n * k \<Longrightarrow> \<exists>cs. concat cs = xs \<and> map length cs = replicate n k"
proof (induction n arbitrary: xs)
  case (Suc n)
  from Suc.prems have "length (drop k xs) = n * k" by simp
  from Suc.IH [OF this] obtain cs where "concat cs = drop k xs" "map length cs = replicate n k" by blast
  with Suc.prems show ?case by (intro exI [of _ "take k xs # cs"]) simp
qed simp

section \<open>The writer\<close>

text \<open>The four buffers of the writer, each as its chunks.\<close>

definition written :: "u8 list list \<Rightarrow> u8 list list \<Rightarrow> u8 list list \<Rightarrow> u8 list list \<Rightarrow> elf_writer \<Rightarrow> bool" where
  "written cs names strs syms w \<longleftrightarrow>
     laid cs (elf w) \<and> laid names (shstrtab w) \<and> laid strs (strtab w) \<and> laid syms (symtab w)"

text \<open>The lengths of the reserved headers: the ELF header, three segments, eight sections.\<close>

definition header_lengths :: "nat list" where
  "header_lengths = 52 # replicate 3 32 @ replicate 8 40"

definition headed :: "u8 list list \<Rightarrow> bool" where
  "headed cs \<longleftrightarrow> take 12 (map length cs) = header_lengths"

lemma headed_update: "headed cs \<Longrightarrow> length xs = length (cs ! i) \<Longrightarrow> headed (cs[i := xs])"
  by (metis headed_def list_update_id map_update)

lemma headed_length: "headed cs \<Longrightarrow> 12 \<le> length cs"
proof -
  assume "headed cs"
  then have "length (take 12 (map length cs)) = 12" by (simp add: headed_def header_lengths_def)
  then show ?thesis by simp
qed

lemma headed_append: "headed cs \<Longrightarrow> headed (cs @ ds)"
  using headed_length [of cs] by (simp add: headed_def)

lemma headedD:
  assumes "headed cs" "i < 12"
  shows "i < length cs" "length (cs ! i) = header_lengths ! i"
    "length (concat (take i cs)) = sum_list (take i header_lengths)"
proof -
  show i: "i < length cs" using headed_length [OF assms(1)] assms(2) by simp
  show "length (cs ! i) = header_lengths ! i"
    using assms i by (metis headed_def nth_map nth_take)
  have "length (concat (take i cs)) = sum_list (take i (map length cs))"
    by (simp add: length_concat take_map)
  also have "take i (map length cs) = take i header_lengths"
    using assms by (simp flip: assms(1) [unfolded headed_def])
  finally show "length (concat (take i cs)) = sum_list (take i header_lengths)" .
qed

lemma section_slot: "j < 8 \<Longrightarrow> header_lengths ! (4 + j) = 40 \<and> sum_list (take (4 + j) header_lengths) = 148 + 40 * j"
  and segment_slot: "j < 3 \<Longrightarrow> header_lengths ! (1 + j) = 32 \<and> sum_list (take (1 + j) header_lengths) = 52 + 32 * j"
  by (auto simp: header_lengths_def less_Suc_eq numeral_eq_Suc)

lemma length_headers [simp]: "length (shdr_words h) = 10" "length (phdr_words q) = 8"
  "length (rela_words r) = 3" "length (sym_bytes y) = 16" "length (ehdr_bytes L) = 52"
  by (simp_all add: shdr_words_def phdr_words_def rela_words_def sym_bytes_def ehdr_bytes_def)

lemma slot_address:
  assumes "unat i < 8" shows "unat (148 + 40 * i :: u32) = 148 + 40 * unat i"
    "unat (52 + 32 * i :: u32) = 52 + 32 * unat i"
  using assms by (simp_all add: unat_word_ariths take_bit_nat_eq_self)

lemma store_shdr_written:
  assumes "written cs names strs syms w" "headed cs" "shoff L = 148" "unat i < 8"
  shows "\<exists>w'. store_shdr L i h w = Inr w'
    \<and> written (cs[4 + unat i := le32s (shdr_words h)]) names strs syms w'
    \<and> headed (cs[4 + unat i := le32s (shdr_words h)])"
proof -
  have i: "4 + unat i < 12" using assms(4) by simp
  note slot = headedD [OF assms(2) i] section_slot [OF assms(4)] slot_address(1) [OF assms(4)]
  have "laid cs (elf w)" using assms(1) by (simp add: written_def)
  from laid_store [OF this slot(1), of "le32s (shdr_words h)" "148 + 40 * i"]
  obtain s' where "poke (148 + 40 * i) (le32s (shdr_words h)) (elf w) = Inr s'"
      "laid (cs[4 + unat i := le32s (shdr_words h)]) s'"
    using slot(2-) by auto
  then show ?thesis
    using assms(1,2,3) headed_update [OF assms(2)] slot(2-) by (simp add: store_shdr_def written_def)
qed

lemma store_phdr_written:
  assumes "written cs names strs syms w" "headed cs" "phoff L = 52" "unat i < 3"
  shows "\<exists>w'. store_phdr L i h w = Inr w'
    \<and> written (cs[1 + unat i := le32s (phdr_words h)]) names strs syms w'
    \<and> headed (cs[1 + unat i := le32s (phdr_words h)])"
proof -
  have i: "1 + unat i < 12" "unat i < 8" using assms(4) by simp_all
  note slot = headedD [OF assms(2) i(1)] segment_slot [OF assms(4)] slot_address(2) [OF i(2)]
  have "laid cs (elf w)" using assms(1) by (simp add: written_def)
  from laid_store [OF this slot(1), of "le32s (phdr_words h)" "52 + 32 * i"]
  obtain s' where "poke (52 + 32 * i) (le32s (phdr_words h)) (elf w) = Inr s'"
      "laid (cs[1 + unat i := le32s (phdr_words h)]) s'"
    using slot(2-) by auto
  then show ?thesis
    using assms(1,2,3) headed_update [OF assms(2)] slot(2-) by (simp add: store_phdr_def written_def)
qed

lemma strtab_add_eq: "strtab_add pf name s = out_write_index pf (c_string name) (of_nat (length (c_string name))) s"
  by (simp add: strtab_add_def c_string_def Let_def add.commute)

lemma strtab_add_laid:
  assumes "laid cs s" "\<forall>c. grants pf c" "length (concat cs) + length name + 1 \<le> 2 ^ 31"
  shows "\<exists>s'. strtab_add pf name s = Inr (of_nat (length (concat cs)), s') \<and> laid (cs @ [c_string name]) s'"
proof -
  have u: "unat (of_nat (length (c_string name)) :: u32) = length (c_string name)"
    using assms(3) by (intro unat_u32_of_nat) (simp add: c_string_def)
  have "length (concat cs) + length (c_string name) \<le> 2 ^ 31" using assms(3) by (simp add: c_string_def)
  with u show ?thesis
    unfolding strtab_add_eq using laid_append [OF assms(1,2), of "of_nat (length (c_string name))" "c_string name"]
    by (metis order_refl take_all)
qed

lemma add_shstr_written:
  assumes "written cs names strs syms w" "\<forall>c. grants pf c" "length (concat names) + length name < 2 ^ 31"
  shows "\<exists>w'. add_shstr pf name w = Inr (of_nat (length (concat names)), w')
    \<and> written cs (names @ [c_string name]) strs syms w'"
  using strtab_add_laid [of names "shstrtab w" pf name] assms by (auto simp: add_shstr_def written_def)

lemma add_str_written:
  assumes "written cs names strs syms w" "\<forall>c. grants pf c" "length (concat strs) + length name < 2 ^ 31"
  shows "\<exists>w'. add_str pf name w = Inr (of_nat (length (concat strs)), w')
    \<and> written cs names (strs @ [c_string name]) syms w'"
  using strtab_add_laid [of strs "strtab w" pf name] assms by (auto simp: add_str_def written_def)

lemma append_elf_written:
  assumes "written cs names strs syms w" "\<forall>c. grants pf c" "unat (span_len sp) \<le> length (span_bytes sp)"
    "length (concat cs) + unat (span_len sp) \<le> 2 ^ 31" "headed cs"
  shows "\<exists>w'. append_elf pf sp w = Inr (of_nat (length (concat cs)), w')
    \<and> written (cs @ [take (unat (span_len sp)) (span_bytes sp)]) names strs syms w'
    \<and> headed (cs @ [take (unat (span_len sp)) (span_bytes sp)])"
  using laid_append [of cs "elf w" pf "span_len sp" "span_bytes sp"] assms headed_append
  by (auto simp: append_elf_def written_def)

lemma span_laid:
  assumes "laid cs s"
  shows "take (unat (span_len (span_of s))) (span_bytes (span_of s)) = concat cs"
    "unat (span_len (span_of s)) \<le> length (span_bytes (span_of s))"
    "span_len (span_of s) = of_nat (length (concat cs))"
    "unat (span_len (span_of s)) = length (concat cs)"
proof -
  show "take (unat (span_len (span_of s))) (span_bytes (span_of s)) = concat cs"
    "unat (span_len (span_of s)) \<le> length (span_bytes (span_of s))"
    using assms by (simp_all add: span_of_def laid_def contents_def out_ok_def word_le_nat_alt)
  show "span_len (span_of s) = of_nat (length (concat cs))" using laid_index [OF assms] by (simp add: span_of_def)
  show "unat (span_len (span_of s)) = length (concat cs)" using laid_len [OF assms] by (simp add: span_of_def)
qed

section \<open>The parts\<close>

text \<open>A section name, a section header and a program header.\<close>

lemma headers_part:
  assumes w: "written cs names strs syms w" "headed cs" and L: "shoff L = 148" "phoff L = 52"
    and pf: "\<forall>c. grants pf c" "length (concat names) + length name < 2 ^ 31"
    and ij: "unat i < 8" "unat j < 3"
    and op: "op w = bind_r (add_shstr pf name w) (\<lambda>(nm, w). bind_r (store_shdr L i (f nm) w) (store_phdr L j ph))"
    and cs': "cs' = cs[4 + unat i := le32s (shdr_words (f (of_nat (length (concat names))))),
      1 + unat j := le32s (phdr_words ph)]"
  shows "\<exists>w'. op w = Inr w' \<and> written cs' (names @ [c_string name]) strs syms w' \<and> headed cs'"
proof -
  obtain w1 where w1: "add_shstr pf name w = Inr (of_nat (length (concat names)), w1)"
      "written cs (names @ [c_string name]) strs syms w1"
    using add_shstr_written [OF w(1) pf] by blast
  obtain w2 where w2: "store_shdr L i (f (of_nat (length (concat names)))) w1 = Inr w2"
      "written (cs[4 + unat i := le32s (shdr_words (f (of_nat (length (concat names)))))]) (names @ [c_string name]) strs syms w2"
      "headed (cs[4 + unat i := le32s (shdr_words (f (of_nat (length (concat names)))))])"
    using store_shdr_written [OF w1(2) w(2) L(1) ij(1)] by blast
  show ?thesis
    using store_phdr_written [OF w2(2,3) L(2) ij(2), of ph] w1(1) w2(1) op cs' by auto
qed

text \<open>A section name and a section header.\<close>

lemma section_part:
  assumes w: "written cs names strs syms w" "headed cs" and L: "shoff L = 148"
    and pf: "\<forall>c. grants pf c" "length (concat names) + length name < 2 ^ 31" and i: "unat i < 8"
    and op: "r = bind_r (add_shstr pf name w) (\<lambda>(nm, w). store_shdr L i (f nm) w)"
    and cs': "cs' = cs[4 + unat i := le32s (shdr_words (f (of_nat (length (concat names)))))]"
  shows "\<exists>w'. r = Inr w' \<and> written cs' (names @ [c_string name]) strs syms w' \<and> headed cs'"
proof -
  obtain w1 where w1: "add_shstr pf name w = Inr (of_nat (length (concat names)), w1)"
      "written cs (names @ [c_string name]) strs syms w1"
    using add_shstr_written [OF w(1) pf] by blast
  show ?thesis
    using store_shdr_written [OF w1(2) w(2) L i, of "f (of_nat (length (concat names)))"] w1(1) op cs' by auto
qed

text \<open>A table at the end of the file, its name and its section header.\<close>

lemma written_span:
  assumes "written cs names strs syms w"
  shows "span_len (span_of (shstrtab w)) = of_nat (length (concat names))"
    "span_len (span_of (strtab w)) = of_nat (length (concat strs))"
    "span_len (span_of (symtab w)) = of_nat (length (concat syms))"
    "len (shstrtab w) = of_nat (length (concat names))"
    "len (strtab w) = of_nat (length (concat strs))"
    "len (symtab w) = of_nat (length (concat syms))"
    "len (elf w) = of_nat (length (concat cs))"
  using assms span_laid(3) laid_index by (simp_all add: written_def)

lemma append_table:
  assumes "written cs names strs syms w" "headed cs" "\<forall>c. grants pf c" "laid tab s"
    "length (concat cs) + length (concat tab) \<le> 2 ^ 31"
  shows "\<exists>w'. append_elf pf (span_of s) w = Inr (of_nat (length (concat cs)), w')
    \<and> written (cs @ [concat tab]) names strs syms w' \<and> headed (cs @ [concat tab])"
  using append_elf_written [OF assms(1,3), of "span_of s"] assms(2,5) span_laid [OF assms(4)] by simp

text \<open>Adding a section name leaves the other tables alone.\<close>

lemma add_shstr_keeps:
  "bind_r (add_shstr pf name w) (\<lambda>(nm, w'). F nm (len (symtab w')) (len (strtab w')) w')
   = bind_r (add_shstr pf name w) (\<lambda>(nm, w'). F nm (len (symtab w)) (len (strtab w)) w')"
  by (simp add: add_shstr_def bind_r_def split: sum.split)

text \<open>A symbol, reserved and then filled in.\<close>

lemma symbol_part:
  assumes w: "written cs names strs syms w" and pf: "\<forall>c. grants pf c" "length (concat strs) + length name < 2 ^ 31"
    and syms: "map length syms = replicate n 16" "unat i = n" "n < 8"
    and op: "op w = bind_r (add_str pf name (resv_sym pf w)) (\<lambda>(nm, w). store_sym i (f nm) w)"
  shows "\<exists>w'. op w = Inr w' \<and> written cs names (strs @ [c_string name])
    (syms @ [sym_bytes (f (of_nat (length (concat strs))))]) w'"
proof -
  have n: "length syms = n" "length (concat syms) = 16 * n"
    using syms(1) by (metis length_map length_replicate, simp add: length_concat sum_list_replicate)
  have "laid syms (symtab w)" using w by (simp add: written_def)
  from laid_resv [OF this pf(1), of 16] obtain s fresh
    where s: "out_resv pf 16 (symtab w) = (of_nat (16 * n), s)" "laid (syms @ [fresh]) s" "length fresh = 16"
    using n(2) syms(3) by auto
  let ?w = "w\<lparr>symtab := s\<rparr>"
  have "written cs names strs (syms @ [fresh]) ?w" "resv_sym pf w = ?w"
    using w s by (simp_all add: written_def resv_sym_def)
  then obtain w1 where w1: "add_str pf name (resv_sym pf w) = Inr (of_nat (length (concat strs)), w1)"
      "written cs names (strs @ [c_string name]) (syms @ [fresh]) w1"
    using add_str_written [OF _ pf] by metis
  have at: "unat (16 * i) = 16 * n" using syms(2,3) by (simp add: unat_word_ariths take_bit_nat_eq_self)
  have "laid (syms @ [fresh]) (symtab w1)" using w1(2) by (simp add: written_def)
  from laid_store [OF this, of n "sym_bytes (f (of_nat (length (concat strs))))" "16 * i"]
  obtain s' where "poke (16 * i) (sym_bytes (f (of_nat (length (concat strs))))) (symtab w1) = Inr s'"
      "laid (syms @ [sym_bytes (f (of_nat (length (concat strs))))]) s'"
    using n s(3) at by (auto simp: list_update_append)
  then show ?thesis using w1 op by (simp add: store_sym_def written_def)
qed

text \<open>The relocation table: two entries in one reservation.\<close>

lemma relocations_part:
  assumes w: "written cs names strs syms w" "headed cs" and L: "shoff L = 148"
    and pf: "\<forall>c. grants pf c" "length (concat names) + 10 < 2 ^ 31" "length (concat cs) + 24 \<le> 2 ^ 31"
    and off: "off = of_nat (length (concat cs))"
    and cs': "cs' = (cs @ [le32s (rela_words lui_rela), le32s (rela_words addi_rela)])
      [7 := le32s (shdr_words (rela_section off (of_nat (length (concat names)))))]"
  shows "\<exists>w'. relocations pf L w = Inr w' \<and> written cs' (names @ [c_string ''.rela.text'']) strs syms w' \<and> headed cs'"
proof -
  let ?lui = "le32s (rela_words lui_rela)" and ?addi = "le32s (rela_words addi_rela)"
  have "laid cs (elf w)" using w(1) by (simp add: written_def)
  from laid_resv [OF this pf(1), of 24] pf(3) obtain s fresh
    where s: "out_resv pf 24 (elf w) = (off, s)" "laid (cs @ [fresh]) s" "length fresh = 24"
    using off by auto
  obtain a b where ab: "laid (cs @ [a, b]) s" "length a = 12" "length b = 12"
    using s(2,3) laid_split [of cs "take 12 fresh" "drop 12 fresh"] by (intro that [of "take 12 fresh" "drop 12 fresh"]) simp_all
  have u: "unat off = length (concat cs)" "unat (off + 12) = length (concat cs) + 12"
    using pf(3) off unat_u32_of_nat [of "length (concat cs)"] unat_u32_of_nat [of "length (concat cs) + 12"] by simp_all
  obtain s1 where s1: "poke off ?lui s = Inr s1" "laid (cs @ [?lui, b]) s1"
    using laid_store [OF ab(1), of "length cs" ?lui off] ab u by (auto simp: list_update_append)
  obtain s2 where s2: "poke (off + 12) ?addi s1 = Inr s2" "laid (cs @ [?lui, ?addi]) s2"
    using laid_store [OF s1(2), of "Suc (length cs)" ?addi "off + 12"] ab u
    by (auto simp: list_update_append nth_append)
  have "written (cs @ [?lui, ?addi]) names strs syms (w\<lparr>elf := s2\<rparr>)" using w(1) s2(2) by (simp add: written_def)
  moreover have "headed (cs @ [?lui, ?addi])" using w(2) by (rule headed_append)
  moreover have "out_resv_index pf (2 * 12) (elf w) = (off, s)"
    using s(1) laid_index [OF \<open>laid cs (elf w)\<close>] off by (simp add: out_resv_index_def)
  then have "relocations pf L w = bind_r (add_shstr pf ''.rela.text'' (w\<lparr>elf := s2\<rparr>))
      (\<lambda>(nm, w). store_shdr L rela_shdr (rela_section off nm) w)"
    unfolding relocations_def using s1(1) s2(1) by simp
  ultimately show ?thesis
    using section_part [OF _ _ L pf(1), of "cs @ [?lui, ?addi]" names strs syms "w\<lparr>elf := s2\<rparr>" "''.rela.text''" rela_shdr
      "relocations pf L w" "rela_section off" cs'] pf(2) cs' by (simp add: rela_shdr_def)
qed

section \<open>The file\<close>

definition section_name_list :: "string list" where
  "section_name_list = [[], ''.text'', ''.data'', ''.riscv.attributes'', ''.rela.text'', ''.symtab'',
     ''.strtab'', ''.shstrtab'']"

text \<open>
  The chunks of the file, and the file.  Everything that follows the code lies at a fixed
  distance from its end.
\<close>

definition elf_chunks :: "elf_locals \<Rightarrow> u8 list \<Rightarrow> u8 list list" where
  "elf_chunks L text =
     (let e = 468 + insns_len L in
      [ehdr_bytes L, le32s (phdr_words (data_segment L)), le32s (phdr_words (text_segment L)),
       le32s (phdr_words (attributes_segment e 0)),
       le32s (shdr_words zero_shdr), le32s (shdr_words (data_section L 7)),
       le32s (shdr_words (text_section L 1)), le32s (shdr_words (rela_section e 31)),
       le32s (shdr_words (symtab_section (e + 24) 32 42)), le32s (shdr_words (strings_section (e + 56) 19 50)),
       le32s (shdr_words (strings_section (e + 75) 68 58)), le32s (shdr_words (attributes_section e 0 13)),
       text, le32s (rela_words lui_rela), le32s (rela_words addi_rela),
       sym_bytes (data_sym 0) @ sym_bytes (entry_sym L 9),
       c_string ''_bf_data'' @ c_string ''_bf_entry'', concat (map c_string section_name_list)])"

definition emitted_locals :: "u32 \<Rightarrow> u32 \<Rightarrow> elf_locals" where
  "emitted_locals page n =
     \<lparr>elf_page = page, phoff = 52, shoff = 148, data_begin_virt = 0x10000,
      insns_begin_virt = code_address 0x10000 page, insns_begin_elf = 468, insns_len = n\<rparr>"

lemma list_update_numeral: "(x # xs)[numeral k := y] = x # xs[pred_numeral k := y]"
  by (simp add: numeral_eq_Suc)

lemma headed_total: "headed cs \<Longrightarrow> length (concat cs) = 468 + length (concat (drop 12 cs))"
proof -
  assume h: "headed cs"
  have "length (concat (take 12 cs)) = sum_list (take 12 (map length cs))"
    by (simp add: length_concat take_map)
  also have "\<dots> = 468" using h by (simp add: headed_def header_lengths_def numeral_eq_Suc)
  finally show ?thesis by (metis append_take_drop_id concat_append length_append)
qed

lemma length_c_string [simp]: "length (c_string name) = Suc (length name)"
  by (simp add: c_string_def)

lemma unat_indices [simp]:
  "unat null_shdr = 0" "unat data_shdr = 1" "unat text_shdr = 2" "unat rela_shdr = 3"
  "unat symtab_shdr = 4" "unat strtab_shdr = 5" "unat shstrtab_shdr = 6" "unat riscv_attr_shdr = 7"
  "unat data_segm = 0" "unat text_segm = 1" "unat riscv_attr_segm = 2"
  by (simp_all add: null_shdr_def data_shdr_def text_shdr_def rela_shdr_def symtab_shdr_def strtab_shdr_def
      shstrtab_shdr_def riscv_attr_shdr_def data_segm_def text_segm_def riscv_attr_segm_def)

text \<open>The chunks after each half; the headers that are not filled in yet are arguments.\<close>

definition half_chunks :: "elf_locals \<Rightarrow> u8 list \<Rightarrow> u8 list \<Rightarrow> u8 list list \<Rightarrow> u8 list list" where
  "half_chunks L text h0 hs =
     (let e = 468 + insns_len L in
      [h0, le32s (phdr_words (data_segment L)), le32s (phdr_words (text_segment L)),
       le32s (phdr_words (attributes_segment e 0)), le32s (shdr_words zero_shdr),
       le32s (shdr_words (data_section L 7)), le32s (shdr_words (text_section L 1)),
       hs ! 0, hs ! 1, hs ! 2, hs ! 3, le32s (shdr_words (attributes_section e 0 13)), text])"

definition table_chunks :: "elf_locals \<Rightarrow> u8 list \<Rightarrow> u8 list \<Rightarrow> u8 list \<Rightarrow> u8 list list" where
  "table_chunks L text h0 h10 =
     (let e = 468 + insns_len L in
      half_chunks L text h0 [le32s (shdr_words (rela_section e 31)),
        le32s (shdr_words (symtab_section (e + 24) 32 42)),
        le32s (shdr_words (strings_section (e + 56) 19 50)), h10]
      @ [le32s (rela_words lui_rela), le32s (rela_words addi_rela),
         sym_bytes (data_sym 0) @ sym_bytes (entry_sym L 9),
         c_string ''_bf_data'' @ c_string ''_bf_entry''])"

lemma zero_shdr_name: "zero_shdr\<lparr>shdr_name := 0\<rparr> = zero_shdr"
  by (simp add: zero_shdr_def)

text \<open>The first half: the headers of null, text, data and attributes.\<close>

lemma first_parts:
  assumes w: "written [h0,h1,h2,h3,h4,h5,h6,h7,h8,h9,h10,h11,text] [] [] [] w"
      "headed [h0,h1,h2,h3,h4,h5,h6,h7,h8,h9,h10,h11,text]"
    and pf: "\<forall>c. grants pf c" and L: "L = emitted_locals page n" "n = of_nat (length text)"
    and cs0: "cs = half_chunks L text h0 [h7,h8,h9,h10]"
  obtains w' where
    "seq_r [null_header pf L, text_headers pf L, data_headers pf L, attributes_headers pf L] w = Inr w'"
    "written cs [[0], c_string ''.text'', c_string ''.data'', c_string ''.riscv.attributes''] [] [] w'"
    "headed cs"
proof -
  have sp: "shoff L = 148" "phoff L = 52" by (simp_all add: L(1) emitted_locals_def)
  have cs: "cs = [h0, le32s (phdr_words (data_segment L)), le32s (phdr_words (text_segment L)),
       le32s (phdr_words (attributes_segment (468 + n) 0)), le32s (shdr_words zero_shdr),
       le32s (shdr_words (data_section L 7)), le32s (shdr_words (text_section L 1)), h7, h8, h9, h10,
       le32s (shdr_words (attributes_section (468 + n) 0 13)), text]"
    by (simp add: cs0 half_chunks_def L(1) emitted_locals_def Let_def)
  note upd = list_update_numeral
  let ?c1 = "[h0,h1,h2,h3,le32s (shdr_words zero_shdr),h5,h6,h7,h8,h9,h10,h11,text]"
  obtain w1 where w1: "null_header pf L w = Inr w1" "written ?c1 [c_string []] [] [] w1" "headed ?c1"
  proof -
    obtain w0 where w0: "store_shdr L null_shdr zero_shdr w = Inr w0" "written ?c1 [] [] [] w0" "headed ?c1"
      using store_shdr_written [OF w sp(1), of null_shdr zero_shdr] by (auto simp: upd)
    have "\<exists>w'. null_header pf L w = Inr w' \<and> written ?c1 ([] @ [c_string []]) [] [] w' \<and> headed ?c1"
      by (rule section_part [OF w0(2,3) sp(1) pf, where i = null_shdr and f = "\<lambda>nm. zero_shdr\<lparr>shdr_name := nm\<rparr>"])
        (simp_all add: null_header_def w0(1) upd zero_shdr_name)
    with that show thesis by auto
  qed
  let ?c2 = "[h0,h1,le32s (phdr_words (text_segment L)),h3,le32s (shdr_words zero_shdr),h5,
    le32s (shdr_words (text_section L 1)),h7,h8,h9,h10,h11,text]"
  have "\<exists>w'. text_headers pf L w1 = Inr w' \<and> written ?c2 ([c_string []] @ [c_string ''.text'']) [] [] w' \<and> headed ?c2"
    by (rule headers_part [OF w1(2,3) sp pf, where i = text_shdr and j = text_segm and f = "text_section L" and ph = "text_segment L"])
      (simp_all add: text_headers_def upd)
  then obtain w2 where w2: "text_headers pf L w1 = Inr w2" "written ?c2 [c_string [], c_string ''.text''] [] [] w2" "headed ?c2"
    by auto
  let ?c3 = "[h0,le32s (phdr_words (data_segment L)),le32s (phdr_words (text_segment L)),h3,
    le32s (shdr_words zero_shdr),le32s (shdr_words (data_section L 7)),
    le32s (shdr_words (text_section L 1)),h7,h8,h9,h10,h11,text]"
  have "\<exists>w'. data_headers pf L w2 = Inr w' \<and> written ?c3 ([c_string [], c_string ''.text''] @ [c_string ''.data'']) [] [] w' \<and> headed ?c3"
    by (rule headers_part [OF w2(2,3) sp pf, where i = data_shdr and j = data_segm and f = "data_section L" and ph = "data_segment L"])
      (simp_all add: data_headers_def upd)
  then obtain w3 where w3: "data_headers pf L w2 = Inr w3"
      "written ?c3 [c_string [], c_string ''.text'', c_string ''.data''] [] [] w3" "headed ?c3"
    by auto
  have "length (concat ?c3) = 468 + length text" using headed_total [OF w3(3)] by simp
  then have e: "len (elf w3) = 468 + n" unfolding written_span(7) [OF w3(2)] L(2) by (simp only: of_nat_add of_nat_numeral)
  have "\<exists>w'. attributes_headers pf L w3 = Inr w' \<and> written cs
      ([c_string [], c_string ''.text'', c_string ''.data''] @ [c_string ''.riscv.attributes'']) [] [] w' \<and> headed cs"
    by (rule headers_part [OF w3(2,3) sp pf, where i = riscv_attr_shdr and j = riscv_attr_segm
          and f = "attributes_section (468 + n) 0" and ph = "attributes_segment (468 + n) 0"])
      (simp_all add: attributes_headers_def emit_riscv_attributes_def e upd cs Let_def)
  then obtain w4 where w4: "attributes_headers pf L w3 = Inr w4" "written cs
      [c_string [], c_string ''.text'', c_string ''.data'', c_string ''.riscv.attributes''] [] [] w4" "headed cs"
    by auto
  have "c_string [] = [0]" by (simp add: c_string_def)
  with w1(1) w2(1) w3(1) w4 show thesis by (intro that [of w4]) simp_all
qed

text \<open>The second half: relocations, symbols and string tables.\<close>

lemma headed_eq: "map length cs = map length ds \<Longrightarrow> headed cs \<longleftrightarrow> headed ds"
  by (simp add: headed_def)

lemma second_parts:
  assumes w: "written (half_chunks L text g0 [g7,g8,g9,g10]) names [] [] w" "headed (half_chunks L text g0 [g7,g8,g9,g10])"
    and pf: "\<forall>c. grants pf c" "length text + 611 \<le> 2 ^ 31" and L: "L = emitted_locals page n" "n = of_nat (length text)"
    and nm: "length (concat names) = 31"
  obtains w' where
    "seq_r [data_symbol pf, relocations pf L, entry_symbol pf L, symbol_table pf L, string_table pf L] w = Inr w'"
    "written (table_chunks L text g0 g10) (names @ [c_string ''.rela.text'', c_string ''.symtab'', c_string ''.strtab''])
       [c_string ''_bf_data'', c_string ''_bf_entry''] [sym_bytes (data_sym 0), sym_bytes (entry_sym L 9)] w'"
    "headed (table_chunks L text g0 g10)"
proof -
  obtain h0 h1 h2 h3 h4 h5 h6 h7 h8 h9 h10 h11
    where hs: "half_chunks L text g0 [g7,g8,g9,g10] = [h0,h1,h2,h3,h4,h5,h6,h7,h8,h9,h10,h11,text]"
    by (simp add: half_chunks_def Let_def)
  define cs where "cs = table_chunks L text g0 g10"
  have cs: "cs = [h0,h1,h2,h3,h4,h5,h6,le32s (shdr_words (rela_section (468 + n) 31)),
       le32s (shdr_words (symtab_section (468 + n + 24) 32 42)),
       le32s (shdr_words (strings_section (468 + n + 56) 19 50)), h10, h11,
       text, le32s (rela_words lui_rela), le32s (rela_words addi_rela),
       sym_bytes (data_sym 0) @ sym_bytes (entry_sym L 9),
       c_string ''_bf_data'' @ c_string ''_bf_entry'']"
    using hs by (simp add: cs_def table_chunks_def half_chunks_def Let_def L(1) emitted_locals_def)
  note w = w [unfolded hs]
  have sp: "shoff L = 148" by (simp add: L(1) emitted_locals_def)
  note upd = list_update_numeral
  let ?syms = "[sym_bytes (data_sym 0), sym_bytes (entry_sym L 9)]"
  let ?strs = "[c_string ''_bf_data'', c_string ''_bf_entry'']"
  let ?e = "468 + n"
  obtain w1 where w1: "data_symbol pf w = Inr w1"
      "written [h0,h1,h2,h3,h4,h5,h6,h7,h8,h9,h10,h11,text] names [c_string ''_bf_data''] [sym_bytes (data_sym 0)] w1"
    using symbol_part [OF w(1) pf(1), of "''_bf_data''" 0 0 "data_symbol pf" data_sym] by (auto simp: data_symbol_def)
  let ?r = "le32s (shdr_words (rela_section ?e 31))"
  let ?c2 = "[h0,h1,h2,h3,h4,h5,h6,?r,h8,h9,h10,h11,text,le32s (rela_words lui_rela),le32s (rela_words addi_rela)]"
  have len: "length (concat [h0,h1,h2,h3,h4,h5,h6,h7,h8,h9,h10,h11,text]) = 468 + length text"
    using headed_total [OF w(2)] by simp
  have "length (concat [h0,h1,h2,h3,h4,h5,h6,h7,h8,h9,h10,h11,text]) + 24 \<le> 2 ^ 31"
    "?e = of_nat (length (concat [h0,h1,h2,h3,h4,h5,h6,h7,h8,h9,h10,h11,text]))"
    unfolding len using pf(2) L(2) by simp_all
  from relocations_part [OF w1(2) w(2) sp pf(1) _ this refl] nm obtain w2 where w2: "relocations pf L w1 = Inr w2"
      "written ?c2 (names @ [c_string ''.rela.text'']) [c_string ''_bf_data''] [sym_bytes (data_sym 0)] w2" "headed ?c2"
    by (auto simp: upd)
  obtain w3 where w3: "entry_symbol pf L w2 = Inr w3" "written ?c2 (names @ [c_string ''.rela.text'']) ?strs ?syms w3"
    using symbol_part [OF w2(2) pf(1), of "''_bf_entry''" 1 1 "entry_symbol pf L" "entry_sym L"] by (auto simp: entry_symbol_def)
  have ls: "length (concat ?c2) = 468 + length text + 24" using headed_total [OF w2(3)] by simp
  let ?c3 = "[h0,h1,h2,h3,h4,h5,h6,?r,h8,h9,h10,h11,text,le32s (rela_words lui_rela),le32s (rela_words addi_rela),
    sym_bytes (data_sym 0) @ sym_bytes (entry_sym L 9)]"
  have i3: "of_nat (length (concat ?c2)) = ?e + 24" "length (concat ?c2) + length (concat ?syms) \<le> 2 ^ 31"
    unfolding ls using L(2) pf(2) by simp_all
  have "laid ?syms (symtab w3)" using w3(2) by (simp add: written_def)
  from append_table [OF w3(2) w2(3) pf(1) this i3(2)] obtain w4
    where w4: "append_elf pf (span_of (symtab w3)) w3 = Inr (?e + 24, w4)"
      "written ?c3 (names @ [c_string ''.rela.text'']) ?strs ?syms w4" "headed ?c3"
    unfolding i3(1) by auto
  let ?s = "le32s (shdr_words (symtab_section (?e + 24) 32 42))"
  let ?c4 = "[h0,h1,h2,h3,h4,h5,h6,?r,?s,h9,h10,h11,text,le32s (rela_words lui_rela),le32s (rela_words addi_rela),
    sym_bytes (data_sym 0) @ sym_bytes (entry_sym L 9)]"
  have "\<exists>w'. symbol_table pf L w3 = Inr w' \<and> written ?c4 ((names @ [c_string ''.rela.text'']) @ [c_string ''.symtab'']) ?strs ?syms w' \<and> headed ?c4"
    by (rule section_part [OF w4(2,3) sp pf(1), where i = symtab_shdr and f = "symtab_section (?e + 24) 32"])
      (use nm in \<open>simp_all add: symbol_table_def w4(1) upd written_span(6) [OF w4(2)]
          add_shstr_keeps [where F = "\<lambda>nm k _. store_shdr L symtab_shdr (symtab_section (?e + 24) k nm)", simplified]\<close>)
  then obtain w5 where w5: "symbol_table pf L w3 = Inr w5"
      "written ?c4 (names @ [c_string ''.rela.text'', c_string ''.symtab'']) ?strs ?syms w5" "headed ?c4" by auto
  have lt: "length (concat ?c4) = 468 + length text + 56" using headed_total [OF w5(3)] by simp
  let ?c5 = "?c4 @ [c_string ''_bf_data'' @ c_string ''_bf_entry'']"
  have i5: "of_nat (length (concat ?c4)) = ?e + 56" "length (concat ?c4) + length (concat ?strs) \<le> 2 ^ 31"
    unfolding lt using L(2) pf(2) by simp_all
  have "laid ?strs (strtab w5)" using w5(2) by (simp add: written_def)
  from append_table [OF w5(2,3) pf(1) this i5(2)] obtain w6
    where w6: "append_elf pf (span_of (strtab w5)) w5 = Inr (?e + 56, w6)"
      "written ?c5 (names @ [c_string ''.rela.text'', c_string ''.symtab'']) ?strs ?syms w6" "headed ?c5"
    unfolding i5(1) by auto
  have "\<exists>w'. string_table pf L w5 = Inr w' \<and> written cs ((names @ [c_string ''.rela.text'', c_string ''.symtab'']) @ [c_string ''.strtab'']) ?strs ?syms w' \<and> headed cs"
    by (rule section_part [OF w6(2,3) sp pf(1), where i = strtab_shdr and f = "strings_section (?e + 56) 19"])
      (use nm in \<open>simp_all add: string_table_def w6(1) upd cs written_span(5) [OF w6(2)]
          add_shstr_keeps [where F = "\<lambda>nm _ k. store_shdr L strtab_shdr (strings_section (?e + 56) k nm)", simplified]\<close>)
  then show thesis using w1(1) w2(1) w3(1) w5(1) unfolding cs_def by (auto intro: that)
qed

text \<open>The end: the table of section names, and the file header.\<close>

lemma last_parts:
  assumes w: "written (table_chunks L text g0 g10) names strs syms w" "headed (table_chunks L text g0 g10)"
    and pf: "\<forall>c. grants pf c" "length text + 611 \<le> 2 ^ 31" and L: "L = emitted_locals page n" "n = of_nat (length text)"
    and nm: "names @ [c_string ''.shstrtab''] = map c_string section_name_list"
  obtains w' where "seq_r [section_names False pf L, file_header L] w = Inr w'" "laid (elf_chunks L text) (elf w')"
proof -
  obtain h0 h1 h2 h3 h4 h5 h6 h7 h8 h9 h10 h11 r1 r2 sy st
    where hs: "table_chunks L text g0 g10 = [h0,h1,h2,h3,h4,h5,h6,h7,h8,h9,h10,h11,text,r1,r2,sy,st]"
      and l75: "length r1 + length r2 + length sy + length st = 75"
    by (simp add: table_chunks_def half_chunks_def Let_def)
  have "length (concat (names @ [c_string ''.shstrtab''])) = 68"
    unfolding nm by (simp add: section_name_list_def)
  then have len: "length r1 + length r2 + length sy + length st = 75" "length (concat names) = 58"
    using l75 by simp_all
  define cs where "cs = elf_chunks L text"
  have cs: "cs = [ehdr_bytes L,h1,h2,h3,h4,h5,h6,h7,h8,h9,
       le32s (shdr_words (strings_section (468 + n + 75) 68 58)),h11,text,r1,r2,sy,st,
       concat (names @ [c_string ''.shstrtab''])]"
    using hs unfolding nm by (simp add: cs_def elf_chunks_def table_chunks_def half_chunks_def Let_def L(1) emitted_locals_def)
  note w = w [unfolded hs]
  have sp: "shoff L = 148" by (simp add: L(1) emitted_locals_def)
  let ?c = "[h0,h1,h2,h3,h4,h5,h6,h7,h8,h9,h10,h11,text,r1,r2,sy,st]"
  let ?names = "names @ [c_string ''.shstrtab'']"
  obtain w1 where w1: "add_shstr pf ''.shstrtab'' w = Inr (58, w1)" "written ?c ?names strs syms w1"
    using add_shstr_written [OF w(1) pf(1), of "''.shstrtab''"] len(2) by auto
  have t: "length (concat ?c) = 468 + length text + 75" using headed_total [OF w(2)] len(1) by simp
  have i: "of_nat (length (concat ?c)) = 468 + n + 75" "length (concat ?c) + length (concat ?names) \<le> 2 ^ 31"
    unfolding t using L(2) pf(2) len(2) by simp_all
  have "laid ?names (shstrtab w1)" using w1(2) by (simp add: written_def)
  from append_table [OF w1(2) w(2) pf(1) this i(2)] obtain w2
    where w2: "append_elf pf (span_of (shstrtab w1)) w1 = Inr (468 + n + 75, w2)"
      "written (?c @ [concat ?names]) ?names strs syms w2" "headed (?c @ [concat ?names])"
    unfolding i(1) by blast
  let ?s = "le32s (shdr_words (strings_section (468 + n + 75) 68 58))"
  let ?c3 = "[h0,h1,h2,h3,h4,h5,h6,h7,h8,h9,?s,h11,text,r1,r2,sy,st,concat ?names]"
  have "len (shstrtab w2) = 68" using written_span(4) [OF w2(2)] len(2) by simp
  then obtain w3 where w3: "section_names False pf L w = Inr w3" "written ?c3 ?names strs syms w3" "headed ?c3"
    using store_shdr_written [OF w2(2,3) sp, of shstrtab_shdr "strings_section (468 + n + 75) 68 58"] w1(1) w2(1)
    by (auto simp: section_names_def list_update_numeral)
  have "laid ?c3 (elf w3)" using w3(2) by (simp add: written_def)
  moreover have "length (?c3 ! 0) = 52" using headedD(2) [OF w3(3), of 0] by (simp add: header_lengths_def)
  ultimately obtain s' where "poke 0 (ehdr_bytes L) (elf w3) = Inr s'" "laid cs s'"
    using laid_store [of ?c3 "elf w3" 0 "ehdr_bytes L" 0] by (auto simp: cs)
  with w3(1) show thesis unfolding cs_def by (intro that [of "w3\<lparr>elf := s'\<rparr>"]) (simp_all add: file_header_def)
qed

lemma seq_r_append: "seq_r (fs @ gs) s = bind_r (seq_r fs s) (seq_r gs)"
  by (induction fs arbitrary: s) (simp_all add: bind_r_def split: sum.split)

text \<open>The three reservations.\<close>

lemma reserved_headers:
  assumes pf: "\<forall>c. grants pf c"
  obtains s1 s2 s3 hs where "out_resv_index pf 52 zero_out = (0, s1)"
    "out_resv_index pf (32 * segment_count) s1 = (52, s2)"
    "out_resv_index pf (40 * section_count) s2 = (148, s3)"
    "laid hs s3" "headed hs" "length hs = 12"
proof -
  have pf': "out_resv pf count s = (of_nat (length (concat cs)), t) \<Longrightarrow> laid cs s
      \<Longrightarrow> out_resv_index pf count s = (of_nat (length (concat cs)), t)" for count s cs t
    using laid_index by (simp add: out_resv_index_def)
  have c: "32 * segment_count = 96" "40 * section_count = 320"
    by (simp_all add: segment_count_def section_count_def)
  obtain s1 e where 1: "out_resv_index pf 52 zero_out = (0, s1)" "laid [e] s1" "length e = 52"
    using laid_resv [OF laid_zero pf, of 52] pf' [of 52 zero_out "[]"] by auto
  obtain s2 ph where 2: "out_resv_index pf 96 s1 = (52, s2)" "laid [e, ph] s2" "length ph = 96"
    using laid_resv [OF 1(2) pf, of 96] pf' [of 96 s1 "[e]"] 1 by auto
  obtain s3 sh where 3: "out_resv_index pf 320 s2 = (148, s3)" "laid [e, ph, sh] s3" "length sh = 320"
    using laid_resv [OF 2(2) pf, of 320] pf' [of 320 s2 "[e, ph]"] 1 2 by auto
  obtain ps ss where cs: "concat ps = ph" "map length ps = replicate 3 32" "concat ss = sh" "map length ss = replicate 8 40"
    using split_chunks [of ph 3 32] split_chunks [of sh 8 40] 2 3 by auto
  have l: "map length (e # ps @ ss) = header_lengths" using cs 1(3) by (simp add: header_lengths_def)
  have "laid (e # ps @ ss) s3" using 3(2) cs by (simp add: laid_def)
  moreover have "length (e # ps @ ss) = 12" using arg_cong [OF l, of length] by (simp add: header_lengths_def)
  moreover have "headed (e # ps @ ss)" using l by (simp add: headed_def header_lengths_def)
  ultimately show thesis using 1(1) 2(1) 3(1) that unfolding c by blast
qed

lemma emit_elf_effect:
  assumes pf: "\<forall>c. grants pf c" "nd \<or> popcount (ucast page) = 1"
    and sp: "unat (span_len sp) \<le> length (span_bytes sp)" "unat (span_len sp) + 611 \<le> 2 ^ 31"
    and t: "text = take (unat (span_len sp)) (span_bytes sp)"
  obtains s where "emit_elf nd False pf page sp = Inr (span_of s)"
    "laid (elf_chunks (emitted_locals page (span_len sp)) text) s"
proof -
  let ?n = "span_len sp" and ?L = "emitted_locals page (span_len sp)"
  have n: "length text = unat ?n" "?n = of_nat (length text)" using sp(1) t by simp_all
  obtain s1 s2 s3 hs where r: "out_resv_index pf 52 zero_out = (0, s1)"
    "out_resv_index pf (32 * segment_count) s1 = (52, s2)"
    "out_resv_index pf (40 * section_count) s2 = (148, s3)"
    "laid hs s3" "headed hs" "length hs = 12" using reserved_headers [OF pf(1)] .
  let ?w = "\<lparr>elf = s3, shstrtab = zero_out, strtab = zero_out, symtab = zero_out\<rparr>"
  have len: "length (concat hs) = 468" using headed_total [OF r(5)] r(6) by simp
  have "written hs [] [] [] ?w" using r(4) by (simp add: written_def)
  from append_elf_written [OF this pf(1) sp(1) _ r(5)] sp(2) len obtain w0
    where w0: "append_elf pf sp ?w = Inr (468, w0)" "written (hs @ [text]) [] [] [] w0" "headed (hs @ [text])"
    by (auto simp: t)
  obtain h0 h1 h2 h3 h4 h5 h6 h7 h8 h9 h10 h11 where hs: "hs = [h0,h1,h2,h3,h4,h5,h6,h7,h8,h9,h10,h11]"
    using r(6) by (auto simp: numeral_eq_Suc length_Suc_conv)
  have b: "length text + 611 \<le> 2 ^ 31" using sp(2) n(1) by simp
  from w0(2,3) have w0': "written [h0,h1,h2,h3,h4,h5,h6,h7,h8,h9,h10,h11,text] [] [] [] w0"
    "headed [h0,h1,h2,h3,h4,h5,h6,h7,h8,h9,h10,h11,text]" by (simp_all add: hs)
  from first_parts [OF w0' pf(1) refl n(2) refl] obtain w1
    where w1: "seq_r [null_header pf ?L, text_headers pf ?L, data_headers pf ?L, attributes_headers pf ?L] w0 = Inr w1"
    "written (half_chunks ?L text h0 [h7, h8, h9, h10])
      [[0], c_string ''.text'', c_string ''.data'', c_string ''.riscv.attributes''] [] [] w1"
    "headed (half_chunks ?L text h0 [h7, h8, h9, h10])" by blast
  from second_parts [OF w1(2,3) pf(1) b refl n(2)] obtain w2
    where w2: "seq_r [data_symbol pf, relocations pf ?L, entry_symbol pf ?L, symbol_table pf ?L, string_table pf ?L] w1 = Inr w2"
    "written (table_chunks ?L text h0 h10) ([[0], c_string ''.text'', c_string ''.data'', c_string ''.riscv.attributes'']
        @ [c_string ''.rela.text'', c_string ''.symtab'', c_string ''.strtab''])
      [c_string ''_bf_data'', c_string ''_bf_entry''] [sym_bytes (data_sym 0), sym_bytes (entry_sym ?L 9)] w2"
    "headed (table_chunks ?L text h0 h10)" by auto
  have "c_string [] = [0]" by (simp add: c_string_def)
  with last_parts [OF w2(2,3) pf(1) b refl n(2)] obtain w3
    where w3: "seq_r [section_names False pf ?L, file_header ?L] w2 = Inr w3" "laid (elf_chunks ?L text) (elf w3)"
    by (auto simp: section_name_list_def)
  have "elf_parts False pf ?L = [null_header pf ?L, text_headers pf ?L, data_headers pf ?L, attributes_headers pf ?L]
      @ [data_symbol pf, relocations pf ?L, entry_symbol pf ?L, symbol_table pf ?L, string_table pf ?L]
      @ [section_names False pf ?L, file_header ?L]" by (simp add: elf_parts_def)
  then have "seq_r (elf_parts False pf ?L) w0 = Inr w3"
    using w1(1) w2(1) w3(1) by (simp only: seq_r_append bind_r_simps)
  then have "emit_elf nd False pf page sp = Inr (span_of (elf w3))"
    using r(1-3) w0(1) pf(2) by (simp add: emit_elf_def emitted_locals_def)
  from this w3(2) show thesis by (rule that)
qed

lemma length_elf_chunks: "length (concat (elf_chunks L text)) = 611 + length text"
  by (simp add: elf_chunks_def section_name_list_def Let_def)

text \<open>
  Property C17. The ELF file is exactly the one laid out in \<open>elf_chunks\<close>: for code of
  \<open>n\<close> bytes it has 611 more, every header is complete, every offset and size in a header is
  that of its part, and nothing depends on what the reserved memory held before.  (The last
  table's offset is assigned after the call that appends it, the order the compilers in use
  choose.)
\<close>

theorem emit_elf_writes:
  assumes "\<forall>c. grants pf c" "nd \<or> popcount (ucast page) = 1"
    and "unat (span_len sp) \<le> length (span_bytes sp)" "unat (span_len sp) + 611 \<le> 2 ^ 31"
  shows "\<exists>r. emit_elf nd False pf page sp = Inr r \<and> unat (span_len r) = 611 + unat (span_len sp)
    \<and> take (unat (span_len r)) (span_bytes r)
      = concat (elf_chunks (emitted_locals page (span_len sp)) (take (unat (span_len sp)) (span_bytes sp)))"
proof -
  from emit_elf_effect [OF assms refl] obtain s where s: "emit_elf nd False pf page sp = Inr (span_of s)"
    "laid (elf_chunks (emitted_locals page (span_len sp)) (take (unat (span_len sp)) (span_bytes sp))) s" .
  then show ?thesis using span_laid [OF s(2)] length_elf_chunks assms(3) by simp
qed

theorem emit_elf_writes_witness:
  "\<exists>r. emit_elf False False pf0 4096 \<lparr>span_bytes = [0x73, 0, 0, 0, 99], span_len = 4\<rparr> = Inr r
    \<and> unat (span_len r) = 615
    \<and> take (unat (span_len r)) (span_bytes r) = concat (elf_chunks (emitted_locals 4096 4) [0x73, 0, 0, 0])"
proof -
  have "filter (bit (4096 :: u64)) [0..<64] = [12]" by (simp add: upt_rec)
  then have "popcount (ucast (4096 :: u32)) = 1" by (simp add: popcount_def)
  moreover have "\<forall>c. grants pf0 c" by (simp add: pf0_def)
  ultimately show ?thesis
    using emit_elf_writes [of pf0 False 4096 "\<lparr>span_bytes = [0x73, 0, 0, 0, 99], span_len = 4\<rparr>"] by simp
qed

end
