(* ===== verification/Loader.thy ===== *)
theory Loader
  imports Elf_Format Machine Bit_Math
begin

text \<open>
  loader.c: bringing an executable into memory, as a raw image (\<open>loader_read_raw\<close>) or as an
  ELF file (\<open>loader_read_elf\<close>).  The system calls are parameters, gathered in \<open>os\<close>; what
  they return is an error number or their result.  Both loaders return their code, the
  structure they fill in (with what it held before where they do not write it) and the
  memory of the process.  The linked lists of the source are lists here.  The log lines are
  not modelled.
\<close>

section \<open>The interface of the system\<close>

record os =
  page_size :: u64
  fstat :: "u32 \<Rightarrow> u32 + u8 list"           \<comment> \<open>by descriptor: the error, or the file\<close>
  mmap_shared :: "u64 \<Rightarrow> u32 + u64"          \<comment> \<open>by size: map the file read-only\<close>
  mmap_anon :: "u64 \<Rightarrow> u32 + u64"            \<comment> \<open>by size: fresh zeroed memory\<close>
  mmap_fixed :: "u64 \<Rightarrow> u64 \<Rightarrow> u32 + u64"    \<comment> \<open>by address and size, not replacing\<close>
  errno_left :: u32                         \<comment> \<open>\<open>errno\<close> after a call that did not fail\<close>
  mprotect :: "u64 \<Rightarrow> u64 \<Rightarrow> u32 \<Rightarrow> u32 option" \<comment> \<open>by address, size and protection\<close>

record loaded_exe =
  exe_mem :: u64
  mem_count :: u64
  entrypoint :: u64

text \<open>The bytes of a mapping: whole pages, zero after the end of the file.\<close>

definition pages_len :: "os \<Rightarrow> nat \<Rightarrow> nat" where
  "pages_len os n = (n + (unat (page_size os) - 1)) div unat (page_size os) * unat (page_size os)"

definition padded :: "os \<Rightarrow> u8 list \<Rightarrow> u8 list" where
  "padded os bs = bs @ replicate (pages_len os (length bs) - length bs) 0"

text \<open>Mapping a block of bytes into the memory of the process, with the protection of each.\<close>

definition map_block :: "u64 \<Rightarrow> u8 list \<Rightarrow> (nat \<Rightarrow> bool) \<Rightarrow> (nat \<Rightarrow> bool) \<Rightarrow> host_mem \<Rightarrow> host_mem" where
  "map_block base bs readable wr m =
     m\<lparr>cells := (\<lambda>a. let k = unat (a - base) in
         if k < length bs then (if readable k then Some (bs ! k) else None) else cells m a),
       writable := (\<lambda>a. let k = unat (a - base) in
         if k < length bs then wr k else writable m a)\<rparr>"

definition mmap_file :: "os \<Rightarrow> u32 \<Rightarrow> u32 + u64 \<times> u8 list" where
  "mmap_file os fd =
     (case fstat os fd of
        Inl errno \<Rightarrow> Inl errno
      | Inr file \<Rightarrow>
          (case mmap_shared os (of_nat (length file)) of
             Inl errno \<Rightarrow> Inl errno
           | Inr addr \<Rightarrow> Inr (addr, file)))"

section \<open>Raw images\<close>

definition loader_read_raw ::
  "os \<Rightarrow> u32 \<Rightarrow> u32 \<Rightarrow> loaded_exe \<Rightarrow> host_mem \<Rightarrow> u32 \<times> loaded_exe \<times> host_mem" where
  "loader_read_raw os fd data_segment_count exe m =
     (case mmap_file os fd of
        Inl errno \<Rightarrow> (errno, exe, m)
      | Inr (addr, file) \<Rightarrow>
          (let exe = exe\<lparr>exe_mem := addr, mem_count := of_nat (length file)\<rparr>;
               m = map_block addr (padded os file) (\<lambda>_. True) (\<lambda>_. False) m;
               exe = exe\<lparr>entrypoint := 0\<rparr>
           in if 0 < data_segment_count then
                let page = ucast (page_size os) :: u32;
                    aligned_count = align_upwards data_segment_count page;
                    wanted_start_addr = exe_mem exe - ucast aligned_count
                in (case mmap_fixed os wanted_start_addr (ucast aligned_count) of
                      Inl errno \<Rightarrow> (errno, exe, m)
                    | Inr start \<Rightarrow>
                        (let m = map_block start (replicate (pages_len os (unat aligned_count)) 0)
                               (\<lambda>_. True) (\<lambda>_. True) m
                         in if start \<noteq> wanted_start_addr then (errno_left os, exe, m)
                            else (0, exe\<lparr>exe_mem := wanted_start_addr,
                                         entrypoint := ucast aligned_count\<rparr>, m)))
              else (0, exe, m)))"

text \<open>What \<open>loader_destroy_exe\<close> unmaps: its start and its length.\<close>

definition loader_destroy_exe :: "loaded_exe \<Rightarrow> u64 \<times> u64" where
  "loader_destroy_exe exe = (exe_mem exe, mem_count exe)"

section \<open>Segments and pages\<close>

record page_descr =
  offset_from_mmap :: u64
  flags :: u8
  page_bytes :: u64      \<comment> \<open>the member \<open>size\<close>, set by \<open>set_page_end\<close>\<close>

record loadable_segment =
  mem_offset :: u64
  phdr :: elf32_phdr

definition add_segment :: "loadable_segment list \<Rightarrow> elf32_phdr \<Rightarrow> loadable_segment list" where
  "add_segment xs ph = xs @ [\<lparr>mem_offset = 0, phdr = ph\<rparr>]"

definition add_page :: "page_descr list \<Rightarrow> u64 \<Rightarrow> u8 \<Rightarrow> page_descr list" where
  "add_page pages off fl = pages @ [\<lparr>offset_from_mmap = off, flags = fl, page_bytes = 0\<rparr>]"

text \<open>The current page is always the last one of the list.\<close>

definition set_page_end :: "page_descr list \<Rightarrow> u64 \<Rightarrow> page_descr list" where
  "set_page_end pages end_offset =
     butlast pages @ [(last pages)\<lparr>page_bytes := end_offset - offset_from_mmap (last pages)\<rparr>]"

text \<open>The scan of the program headers; \<open>None\<close> when one asks for an interpreter.\<close>

fun scan_phdrs ::
  "u8 list \<Rightarrow> nat \<Rightarrow> nat \<Rightarrow> loadable_segment list \<Rightarrow> bool \<Rightarrow> (loadable_segment list \<times> bool) option result" where
  "scan_phdrs img off 0 segms found = Inr (Some (segms, found))"
| "scan_phdrs img off (Suc n) segms found =
     bind_r (rd32 img off) (\<lambda>ty.
       if ty = PT_LOAD then
         bind_r (read_phdr img off) (\<lambda>ph.
           scan_phdrs img (off + sizeof_phdr) n (add_segment segms ph)
             (found \<or> p_flags ph AND (PF_X OR PF_R) = PF_X OR PF_R))
       else if ty = PT_INTERP then Inr None
       else scan_phdrs img (off + sizeof_phdr) n segms found)"

section \<open>The layout of the memory image\<close>

text \<open>
  The loop over the second and later segments.  The difference of the two addresses is taken
  in 32 bits, the rest in 64.
\<close>

definition skip_gap :: "u64 \<Rightarrow> loadable_segment \<Rightarrow> elf32_phdr \<Rightarrow> u64" where
  "skip_gap next_segment_offset prev ph =
     (let distance_between_starts = ucast (p_vaddr ph - p_vaddr (phdr prev)) :: u64;
          distance_end_to_start = distance_between_starts - ucast (p_memsz (phdr prev));
          curr_distance = next_segment_offset - mem_offset prev
      in if curr_distance < distance_end_to_start
         then next_segment_offset + (distance_end_to_start - curr_distance)
         else next_segment_offset)"

definition align_segment :: "u64 \<Rightarrow> elf32_phdr \<Rightarrow> u64" where
  "align_segment off ph = (if 2 \<le> p_align ph then align_upwards64 off (ucast (p_align ph)) else off)"

record layout =
  next_segment_offset :: u64
  prev_segment :: loadable_segment
  pages :: "page_descr list"
  placed :: "loadable_segment list"
  lay_entry :: u64              \<comment> \<open>\<open>exe->entrypoint\<close>\<close>

definition layout_first :: "elf32_phdr \<Rightarrow> u64 \<Rightarrow> layout" where
  "layout_first ph entry =
     (let segm = \<lparr>mem_offset = 0, phdr = ph\<rparr>
      in \<lparr>next_segment_offset = ucast (p_memsz ph), prev_segment = segm,
          pages = add_page [] 0 (ucast (p_flags ph)), placed = [segm], lay_entry = entry\<rparr>)"

definition layout_step :: "u64 \<Rightarrow> u32 \<Rightarrow> layout \<Rightarrow> elf32_phdr \<Rightarrow> layout" where
  "layout_step page entry l ph =
     (let off = align_segment (skip_gap (next_segment_offset l) (prev_segment l) ph) ph;
          new_page = p_flags ph \<noteq> ucast (flags (last (pages l)));
          off = (if new_page then align_upwards64 off page else off);
          pgs = (if new_page then add_page (set_page_end (pages l) off) off (ucast (p_flags ph))
                 else pages l);
          segm_virtual_end = p_vaddr ph + p_memsz ph;
          ent = (if p_vaddr ph \<le> entry \<and> entry < segm_virtual_end
                 then ucast (entry - p_vaddr ph) + off else lay_entry l);
          segm = \<lparr>mem_offset = off, phdr = ph\<rparr>
      in \<lparr>next_segment_offset = off + ucast (p_memsz ph), prev_segment = segm,
          pages = pgs, placed = placed l @ [segm], lay_entry = ent\<rparr>)"

definition layout_segments :: "u64 \<Rightarrow> u32 \<Rightarrow> u64 \<Rightarrow> elf32_phdr list \<Rightarrow> layout" where
  "layout_segments page entry ent0 phs =
     (let l = foldl (layout_step page entry) (layout_first (hd phs) ent0) (tl phs)
      in l\<lparr>pages := set_page_end (pages l) (next_segment_offset l)\<rparr>)"

section \<open>Copying the segments\<close>

fun copy_segments :: "u8 list \<Rightarrow> loadable_segment list \<Rightarrow> u8 list \<Rightarrow> u8 list result" where
  "copy_segments img [] memory = Inr memory"
| "copy_segments img (segm # segms) memory =
     (let ph = phdr segm; off = unat (mem_offset segm); filesz = unat (p_filesz ph) in
      bind_r (read_range img (unat (p_offset ph)) filesz) (\<lambda>bs.
      bind_r (write_range memory off bs) (\<lambda>memory.
      bind_r (if p_filesz ph < p_memsz ph
              then write_range memory (off + filesz) (replicate (unat (p_memsz ph - p_filesz ph)) 0)
              else Inr memory) (copy_segments img segms))))"

section \<open>Relocations\<close>

text \<open>\<open>None\<close> is the return value \<open>false\<close>.\<close>

fun find_offset_for_section :: "bool \<Rightarrow> u32 \<Rightarrow> loadable_segment list \<Rightarrow> u32 option result" where
  "find_offset_for_section ndebug addr [] = Inr None"
| "find_offset_for_section ndebug addr (segm # segms) =
     (let virt_start = p_vaddr (phdr segm);
          virt_end = p_vaddr (phdr segm) + p_memsz (phdr segm)
      in if virt_start \<le> addr \<and> addr < virt_end
         then let res = mem_offset segm + ucast (addr - virt_start)
              in if \<not> ndebug \<and> \<not> res < 0xffffffff
                 then Inl (Assertion_failed ''res < UINT32_MAX'') else Inr (Some (ucast res))
         else find_offset_for_section ndebug addr segms)"

text \<open>The patch: the mask keeps the bits from 20 on.\<close>

definition patch_hi20 :: "u32 \<Rightarrow> u32 \<Rightarrow> u32" where
  "patch_hi20 insn value = insn OR (value AND ucast (NOT (push_bit 20 1 - 1) :: u64))"

text \<open>How the relocation of one entry or of one table ends.\<close>

datatype reloc =
    Relocated "u8 list"
  | Unmapped         \<comment> \<open>\<open>goto clean_mapped_exe\<close> without setting \<open>code\<close>\<close>
  | Unknown_type     \<comment> \<open>\<open>code = ENOEXEC\<close>\<close>

definition relocate ::
  "bool \<Rightarrow> u8 list \<Rightarrow> nat \<Rightarrow> loadable_segment list \<Rightarrow> nat \<Rightarrow> u32 \<Rightarrow> nat \<Rightarrow> u8 list \<Rightarrow> reloc result" where
  "relocate ndebug img shoff segms syms patch_base rela memory =
     bind_r (rd32 img (rela + 4)) (\<lambda>r_info.
     let sym = syms + sizeof_sym * unat (drop_bit 8 r_info) in
     bind_r (rd16 img (sym + 14)) (\<lambda>sym_shndx.
     bind_r (sh_addr img (shoff + sizeof_shdr * unat sym_shndx)) (\<lambda>addr.
     bind_r (find_offset_for_section ndebug addr segms) (\<lambda>found.
       case found of
         None \<Rightarrow> Inr Unmapped
       | Some sym_base \<Rightarrow>
           bind_r (rd32 img (sym + 4)) (\<lambda>st_value.
           let s = sym_base + st_value in
           if r_info AND 0xff = R_RISCV_HI20 then
             bind_r (rd32 img (rela + 8)) (\<lambda>r_addend.
             bind_r (rd32 img rela) (\<lambda>r_offset.
             let at = unat patch_base + unat r_offset in
             bind_r (rd32 memory at) (\<lambda>insn.
             bind_r (write_range memory at (le32 (patch_hi20 insn (s + r_addend)))) (\<lambda>memory.
               Inr (Relocated memory)))))
           else Inr Unknown_type)))))"

fun relocate_all ::
  "bool \<Rightarrow> u8 list \<Rightarrow> nat \<Rightarrow> loadable_segment list \<Rightarrow> nat \<Rightarrow> u32 \<Rightarrow> nat \<Rightarrow> nat \<Rightarrow> u8 list \<Rightarrow> reloc result" where
  "relocate_all ndebug img shoff segms syms patch_base relatbl 0 memory = Inr (Relocated memory)"
| "relocate_all ndebug img shoff segms syms patch_base relatbl (Suc n) memory =
     bind_r (relocate ndebug img shoff segms syms patch_base relatbl memory) (\<lambda>r.
       case r of
         Relocated memory \<Rightarrow>
           relocate_all ndebug img shoff segms syms patch_base (relatbl + sizeof_rela) n memory
       | _ \<Rightarrow> Inr r)"

definition relocate_section ::
  "bool \<Rightarrow> u8 list \<Rightarrow> nat \<Rightarrow> loadable_segment list \<Rightarrow> nat \<Rightarrow> u8 list \<Rightarrow> reloc result" where
  "relocate_section ndebug img shoff segms shdr memory =
     bind_r (sh_link img shdr) (\<lambda>link.
     let symtab = shoff + sizeof_shdr * unat link in
     bind_r (sh_offset img symtab) (\<lambda>syms.
     bind_r (sh_link img symtab) (\<lambda>strtab.
     bind_r (sh_offset img (shoff + sizeof_shdr * unat strtab)) (\<lambda>sym_names.
     bind_r (sh_entsize img shdr) (\<lambda>entsize.
     if \<not> ndebug \<and> unat entsize \<noteq> sizeof_rela
     then Inl (Assertion_failed ''rela_shdr->sh_entsize == sizeof(Elf32_Rela)'')
     else
     bind_r (sh_size img shdr) (\<lambda>size.
     bind_r (sh_offset img shdr) (\<lambda>relatbl.
     bind_r (sh_info img shdr) (\<lambda>info.
     bind_r (sh_addr img (shoff + sizeof_shdr * unat info)) (\<lambda>addr.
     bind_r (find_offset_for_section ndebug addr segms) (\<lambda>found.
       case found of
         None \<Rightarrow> Inr Unmapped
       | Some patch_base \<Rightarrow>
           relocate_all ndebug img shoff segms (unat syms) patch_base (unat relatbl)
             (unat size div sizeof_rela) memory))))))))))"

text \<open>
  The loop over the sections: \<open>shnames\<close> says whether the name of each is read (it is, when
  there is a section table).
\<close>

fun relocate_sections ::
  "bool \<Rightarrow> u8 list \<Rightarrow> nat \<Rightarrow> bool \<Rightarrow> loadable_segment list \<Rightarrow> nat \<Rightarrow> nat \<Rightarrow> u8 list \<Rightarrow> reloc result" where
  "relocate_sections ndebug img shoff shnames segms shdr 0 memory = Inr (Relocated memory)"
| "relocate_sections ndebug img shoff shnames segms shdr (Suc n) memory =
     bind_r (if shnames then sh_name img shdr else Inr 0) (\<lambda>shname.
     bind_r (sh_type img shdr) (\<lambda>ty.
     bind_r (if ty = SHT_RELA then relocate_section ndebug img shoff segms shdr memory
             else Inr (Relocated memory)) (\<lambda>r.
       case r of
         Relocated memory \<Rightarrow>
           relocate_sections ndebug img shoff shnames segms (shdr + sizeof_shdr) n memory
       | _ \<Rightarrow> Inr r)))"

definition relocate_image ::
  "bool \<Rightarrow> u8 list \<Rightarrow> elf32_ehdr \<Rightarrow> loadable_segment list \<Rightarrow> u8 list \<Rightarrow> reloc result" where
  "relocate_image ndebug img h segms memory =
     (let shoff = unat (e_shoff h); shnames = e_shoff h \<noteq> 0 in
      bind_r (if shnames then sh_offset img (shoff + sizeof_shdr * unat (e_shstrndx h)) else Inr 0) (\<lambda>_.
        relocate_sections ndebug img shoff shnames segms shoff (unat (e_shnum h)) memory))"

section \<open>Protections\<close>

definition PROT_READ :: u32 where "PROT_READ = 1"
definition PROT_WRITE :: u32 where "PROT_WRITE = 2"
definition PROT_EXEC :: u32 where "PROT_EXEC = 4"

definition hasflag :: "page_descr \<Rightarrow> u32 \<Rightarrow> bool" where
  "hasflag page flag = (ucast (flags page) AND flag \<noteq> 0)"

definition page_prot :: "page_descr \<Rightarrow> u32" where
  "page_prot page =
     (let prot = 0;
          prot = (if hasflag page PF_R then prot OR PROT_READ else prot);
          prot = (if hasflag page PF_W then prot OR PROT_WRITE else prot);
          prot = (if hasflag page PF_X then prot OR PROT_EXEC else prot)
      in prot)"

text \<open>
  The calls of \<open>mprotect\<close> in order: the error of the first that fails, or the protection of
  every byte of the image, each call applying to whole pages.
\<close>

fun protect_pages ::
  "os \<Rightarrow> u64 \<Rightarrow> page_descr list \<Rightarrow> (nat \<Rightarrow> u32) \<Rightarrow> u32 + (nat \<Rightarrow> u32)" where
  "protect_pages os memory [] prot = Inr prot"
| "protect_pages os memory (page # pgs) prot =
     (case mprotect os (memory + offset_from_mmap page) (page_bytes page) (page_prot page) of
        Some errno \<Rightarrow> Inl errno
      | None \<Rightarrow>
          protect_pages os memory pgs (\<lambda>k.
            if unat (offset_from_mmap page) \<le> k
               \<and> k < unat (offset_from_mmap page) + pages_len os (unat (page_bytes page))
            then page_prot page else prot k))"

section \<open>ELF files\<close>

definition expected_ident :: "u8 list" where
  "expected_ident = [0x7f, 69, 76, 70, 1, 1, 1, 0, 0]"

text \<open>\<open>code\<close> is a \<open>bool\<close> in the source, so every error number becomes 1.\<close>

definition as_bool :: "u32 \<Rightarrow> u32" where
  "as_bool e = of_bool (e \<noteq> 0)"

text \<open>From the anonymous mapping on; \<open>code\<close> is what it was set to before.\<close>

definition load_image ::
  "bool \<Rightarrow> os \<Rightarrow> u8 list \<Rightarrow> elf32_ehdr \<Rightarrow> layout \<Rightarrow> u32 \<Rightarrow> loaded_exe \<Rightarrow> host_mem
     \<Rightarrow> (u32 \<times> loaded_exe \<times> host_mem) result" where
  "load_image ndebug os img h l code exe m =
     (let size = next_segment_offset l in
      case mmap_anon os size of
        Inl errno \<Rightarrow> Inr (as_bool errno, exe, m)
      | Inr memory \<Rightarrow>
          bind_r (copy_segments img (placed l) (replicate (pages_len os (unat size)) 0)) (\<lambda>image.
          bind_r (relocate_image ndebug img h (placed l) image) (\<lambda>r.
            case r of
              Unmapped \<Rightarrow> Inr (code, exe, m)
            | Unknown_type \<Rightarrow> Inr (as_bool ENOEXEC, exe, m)
            | Relocated image \<Rightarrow>
                (case protect_pages os memory (pages l) (\<lambda>_. PROT_READ OR PROT_WRITE) of
                   Inl errno \<Rightarrow> Inr (as_bool errno, exe, m)
                 | Inr prot \<Rightarrow>
                     Inr (code,
                       exe\<lparr>exe_mem := memory, mem_count := size,
                         entrypoint := ucast (e_entry h - p_vaddr (phdr (hd (placed l))))\<rparr>,
                       map_block memory image (\<lambda>k. prot k AND PROT_READ \<noteq> 0)
                         (\<lambda>k. prot k AND PROT_WRITE \<noteq> 0) m)))))"

definition load_segments ::
  "bool \<Rightarrow> os \<Rightarrow> u8 list \<Rightarrow> elf32_ehdr \<Rightarrow> loadable_segment list \<Rightarrow> u32 \<Rightarrow> loaded_exe \<Rightarrow> host_mem
     \<Rightarrow> (u32 \<times> loaded_exe \<times> host_mem) result" where
  "load_segments ndebug os img h segms code exe m =
     (if page_size os < ucast (p_align (phdr (hd segms))) then Inr (as_bool ENOEXEC, exe, m)
      else let l = layout_segments (page_size os) (e_entry h) (entrypoint exe) (map phdr segms)
           in load_image ndebug os img h l code (exe\<lparr>entrypoint := lay_entry l\<rparr>) m)"

definition loader_read_elf ::
  "bool \<Rightarrow> os \<Rightarrow> u32 \<Rightarrow> loaded_exe \<Rightarrow> host_mem \<Rightarrow> (u32 \<times> loaded_exe \<times> host_mem) result" where
  "loader_read_elf ndebug os fd exe m =
     (case mmap_file os fd of
        Inl errno \<Rightarrow> Inr (as_bool errno, exe, m)
      | Inr (addr, file) \<Rightarrow>
          (let img = padded os file in
           bind_r (read_range img 0 (length expected_ident)) (\<lambda>ident.
           if ident \<noteq> expected_ident then Inr (as_bool ENOEXEC, exe, m)
           else
           bind_r (read_ehdr img) (\<lambda>h.
           if e_machine h \<noteq> EM_RISCV then Inr (as_bool ENOEXEC, exe, m)
           else
           let code = (if e_entry h = 0 then as_bool ENOEXEC else 0) in
           if unat (e_phentsize h) \<noteq> sizeof_phdr \<and> e_phentsize h = 0 then Inr (as_bool ENOEXEC, exe, m)
           else
           bind_r (scan_phdrs img (unat (e_phoff h)) (unat (e_phnum h)) [] False) (\<lambda>scan.
             case scan of
               None \<Rightarrow> Inr (as_bool ENOEXEC, exe, m)
             | Some (segms, found_any_exec_segment) \<Rightarrow>
                 if \<not> found_any_exec_segment then Inr (code, exe, m)
                 else load_segments ndebug os img h segms code exe m)))))"

end
