(* ===== verification/Loader_Props.thy ===== *)
theory Loader_Props
  imports Loader Bf_Run
begin

text \<open>
  What the raw loader establishes: the data segment lies right below the file, zeroed and
  writable; and what \<open>loader_destroy_exe\<close> leaves of it.
\<close>

section \<open>Mapped blocks\<close>

lemma unat_u64_of_nat: "k < 2 ^ 64 \<Longrightarrow> unat (of_nat k :: u64) = k"
  by (simp only: unat_of_nat) (simp add: take_bit_nat_eq_self)

lemma map_block_in:
  assumes "k < length bs" "length bs \<le> 2 ^ 64"
  shows "cells (map_block base bs r w m) (base + of_nat k) = (if r k then Some (bs ! k) else None)"
    and "writable (map_block base bs r w m) (base + of_nat k) = w k"
  using assms unat_u64_of_nat [of k] by (simp_all add: map_block_def)

lemma map_block_out:
  assumes "length bs \<le> unat (a - base)"
  shows "cells (map_block base bs r w m) a = cells m a"
    and "writable (map_block base bs r w m) a = writable m a"
  using assms by (simp_all add: map_block_def)

lemma pages_len_ge:
  assumes "0 < unat (page_size os)" shows "n \<le> pages_len os n"
  using is_align_up_div [OF assms, of n] by (simp add: is_align_up_def pages_len_def)

lemma pages_len_multiple: "unat (page_size os) dvd n \<Longrightarrow> 0 < unat (page_size os) \<Longrightarrow> pages_len os n = n"
  using is_align_up_div [of "unat (page_size os)" n]
  by (metis dual_order.antisym is_align_up_def order_refl pages_len_def)

lemma padded_nth: "k < length file \<Longrightarrow> padded os file ! k = file ! k"
  and length_padded: "0 < unat (page_size os) \<Longrightarrow> length (padded os file) = pages_len os (length file)"
  using pages_len_ge [of os "length file"] by (simp_all add: padded_def nth_append)

section \<open>Raw images\<close>

lemma unat_2_power: "p < LENGTH('a) \<Longrightarrow> unat (2 ^ p :: 'a::len word) = 2 ^ p"
  by (rule bit_eqI) (auto simp: bit_simps bit_unsigned_iff)

lemma raw_loads:
  assumes pg: "page_size os = 2 ^ p" "p < 32" and fil: "fstat os fd = Inr file"
    "mmap_shared os (of_nat (length file)) = Inr addr"
    and data: "0 < data" "unat data + 2 ^ p \<le> 2 ^ 32" "al = align_upwards data (2 ^ p)"
    and fx: "mmap_fixed os (addr - ucast al) (ucast al) = Inr (addr - ucast al)"
    and fits: "unat al + pages_len os (length file) \<le> 2 ^ 64"
  obtains exe' m' where "loader_read_raw os fd data exe m = (0, exe', m')"
    "exe_mem exe' = addr - ucast al" "entrypoint exe' = ucast al"
    "mem_count exe' = of_nat (length file)"
    "unat data \<le> unat al" "2 ^ p dvd unat al"
    "\<forall>k < unat al. cells m' (exe_mem exe' + of_nat k) = Some 0 \<and> writable m' (exe_mem exe' + of_nat k)"
    "\<forall>k < length file. cells m' (exe_mem exe' + of_nat (unat al + k)) = Some (file ! k)
       \<and> \<not> writable m' (exe_mem exe' + of_nat (unat al + k))"
proof -
  have pos: "unat (page_size os) = 2 ^ p" "0 < unat (page_size os)" using pg by (simp_all add: unat_2_power)
  have page: "(ucast (page_size os) :: u32) = 2 ^ p"
    using pg by (intro unat_eqI) (simp add: unsigned_ucast_eq unat_2_power take_bit_nat_eq_self)
  have "is_align_up (2 ^ p) (unat data) (unat al)"
    using is_align_up_div [of "2 ^ p" "unat data"] align_upwards_eq [OF pg(2) data(2)] data(3) by simp
  then have al: "2 ^ p dvd unat al" "unat data \<le> unat al" by (simp_all add: is_align_up_def)
  let ?w = "addr - ucast al"
  define m1 where "m1 = map_block addr (padded os file) (\<lambda>_. True) (\<lambda>_. False) m"
  define m2 where "m2 = map_block ?w (replicate (pages_len os (unat al)) 0) (\<lambda>_. True) (\<lambda>_. True) m1"
  let ?exe = "exe\<lparr>exe_mem := ?w, mem_count := of_nat (length file), entrypoint := ucast al\<rparr>"
  have "loader_read_raw os fd data exe m = (0, ?exe, m2)"
    using fil data fx page by (simp add: loader_read_raw_def mmap_file_def m1_def m2_def Let_def)
  moreover have pl: "pages_len os (unat al) = unat al" using pages_len_multiple pos al(1) by simp
  have lf: "length file \<le> pages_len os (length file)" using pages_len_ge pos(2) by simp
  have "cells m2 (?w + of_nat k) = Some 0 \<and> writable m2 (?w + of_nat k)" if "k < unat al" for k
    using that map_block_in [of k "replicate (unat al) 0" ?w] fits unfolding m2_def pl by simp
  moreover have "cells m2 (?w + of_nat (unat al + k)) = Some (file ! k)
      \<and> \<not> writable m2 (?w + of_nat (unat al + k))" if k: "k < length file" for k
  proof -
    have u: "unat (of_nat (unat al + k) :: u64) = unat al + k"
      using k fits lf by (intro unat_u64_of_nat) linarith
    then have "length (replicate (unat al) (0 :: u8)) \<le> unat (?w + of_nat (unat al + k) - ?w)"
      by (simp only: length_replicate add_diff_cancel_left' u le_add1)
    note out = map_block_out [OF this]
    have "?w + of_nat (unat al + k) = addr + of_nat k"
      by simp
    moreover have "cells m1 (addr + of_nat k) = Some (file ! k)" "\<not> writable m1 (addr + of_nat k)"
      using map_block_in [of k "padded os file" addr] k fits lf length_padded [OF pos(2), of "file"]
        padded_nth [OF k, of os] unfolding m1_def by simp_all
    ultimately show ?thesis using out unfolding m2_def pl by simp
  qed
  ultimately show thesis using al by (intro that [of ?exe m2]) simp_all
qed

text \<open>
  Property C15. \<open>loader_read_raw\<close> with a data segment: the image starts with the requested
  number of zeroed, writable bytes, rounded up to a page, and the file follows, read-only; the
  entry point is the first byte of the file.
\<close>

theorem raw_image_loads:
  assumes "page_size os = 2 ^ p" "p < 32" "fstat os fd = Inr file"
    "mmap_shared os (of_nat (length file)) = Inr addr"
    "0 < data" "unat data + 2 ^ p \<le> 2 ^ 32" "al = align_upwards data (2 ^ p)"
    "mmap_fixed os (addr - ucast al) (ucast al) = Inr (addr - ucast al)"
    "unat al + pages_len os (length file) \<le> 2 ^ 64"
  shows "\<exists>exe' m'. loader_read_raw os fd data exe m = (0, exe', m')
    \<and> entrypoint exe' = ucast al \<and> unat data \<le> unat al
    \<and> (\<forall>k < unat al. cells m' (exe_mem exe' + of_nat k) = Some 0
         \<and> writable m' (exe_mem exe' + of_nat k))
    \<and> (\<forall>k < length file. cells m' (exe_mem exe' + of_nat (unat al + k)) = Some (file ! k)
         \<and> \<not> writable m' (exe_mem exe' + of_nat (unat al + k)))"
  by (rule raw_loads [OF assms, of exe m]) (intro exI conjI; assumption)

text \<open>A system with 4 KiB pages that maps files at \<open>0x40000000\<close> and grants every request.\<close>

definition demo_os :: "u8 list \<Rightarrow> os" where
  "demo_os content =
     \<lparr>page_size = 4096, fstat = (\<lambda>_. Inr content), mmap_shared = (\<lambda>_. Inr 0x40000000),
      mmap_anon = (\<lambda>_. Inr 0x50000000), mmap_fixed = (\<lambda>addr _. Inr addr), errno_left = 0,
      mprotect = (\<lambda>_ _ _. None)\<rparr>"

definition no_exe :: loaded_exe where
  "no_exe = \<lparr>exe_mem = 0, mem_count = 0, entrypoint = 0\<rparr>"

definition no_mem :: host_mem where
  "no_mem = \<lparr>cells = (\<lambda>_. None), writable = (\<lambda>_. False)\<rparr>"

lemma demo_raw:
  "page_size (demo_os [1, 2, 3]) = 2 ^ 12" "(12 :: nat) < 32" "fstat (demo_os [1, 2, 3]) 3 = Inr [1, 2, 3]"
  "mmap_shared (demo_os [1, 2, 3]) (of_nat (length [1, 2, 3 :: u8])) = Inr 0x40000000"
  "(0 :: u32) < 3072" "unat (3072 :: u32) + 2 ^ 12 \<le> 2 ^ 32" "4096 = align_upwards 3072 (2 ^ 12)"
  "mmap_fixed (demo_os [1, 2, 3]) (0x40000000 - ucast (4096 :: u32)) (ucast (4096 :: u32))
     = Inr (0x40000000 - ucast (4096 :: u32))"
  "unat (4096 :: u32) + pages_len (demo_os [1, 2, 3]) (length [1, 2, 3 :: u8]) \<le> 2 ^ 64"
  by (simp_all add: demo_os_def align_upwards_def pages_len_def)

theorem raw_image_loads_witness:
  "\<exists>exe' m'. loader_read_raw (demo_os [1, 2, 3]) 3 3072 no_exe no_mem = (0, exe', m')
    \<and> entrypoint exe' = 4096 \<and> cells m' (exe_mem exe' + 4097) = Some 2
    \<and> cells m' (exe_mem exe') = Some 0"
proof -
  from raw_image_loads [OF demo_raw, of no_exe no_mem] obtain exe' m'
    where e: "loader_read_raw (demo_os [1, 2, 3]) 3 3072 no_exe no_mem = (0, exe', m')"
      "entrypoint exe' = ucast (4096 :: u32)"
      "\<forall>k < unat (4096 :: u32). cells m' (exe_mem exe' + of_nat k) = Some 0 \<and> writable m' (exe_mem exe' + of_nat k)"
      "\<forall>k < length [1, 2, 3 :: u8]. cells m' (exe_mem exe' + of_nat (unat (4096 :: u32) + k)) = Some ([1, 2, 3] ! k)
         \<and> \<not> writable m' (exe_mem exe' + of_nat (unat (4096 :: u32) + k))" by blast
  have "cells m' (exe_mem exe') = Some 0" "cells m' (exe_mem exe' + 4097) = Some 2"
    using e(3) [rule_format, of 0] e(4) [rule_format, of 1] by simp_all
  with e(1,2) show ?thesis by auto
qed

text \<open>
  \<open>loader_read_raw\<close> does not add the data segment to \<open>mem_count\<close>, so
  \<open>loader_destroy_exe\<close> leaves the end of the image mapped: it unmaps as many bytes as the
  file has, from the start of the data segment.
\<close>

theorem raw_image_not_unmapped:
  assumes "page_size os = 2 ^ p" "p < 32" "fstat os fd = Inr file"
    "mmap_shared os (of_nat (length file)) = Inr addr"
    "0 < data" "unat data + 2 ^ p \<le> 2 ^ 32" "al = align_upwards data (2 ^ p)"
    "mmap_fixed os (addr - ucast al) (ucast al) = Inr (addr - ucast al)"
    "unat al + pages_len os (length file) \<le> 2 ^ 64"
  shows "\<exists>exe' m'. loader_read_raw os fd data exe m = (0, exe', m')
    \<and> loader_destroy_exe exe' = (addr - ucast al, of_nat (length file))"
  by (rule raw_loads [OF assms, of exe m]) (simp add: loader_destroy_exe_def)

theorem raw_image_not_unmapped_witness:
  "\<exists>exe' m'. loader_read_raw (demo_os [1, 2, 3]) 3 3072 no_exe no_mem = (0, exe', m')
    \<and> loader_destroy_exe exe' = (0x3FFFF000, 3)"
  using raw_image_not_unmapped [OF demo_raw, of no_exe no_mem] by simp

end
