(* ===== verification/Loader_Elf.thy ===== *)
theory Loader_Elf
  imports Loader_Props
begin

text \<open>
  The ELF loader on files whose loadable segments follow each other page by page: the
  program headers that are found, where the segments go, what is copied there, and the
  protection each gets.
\<close>

section \<open>Finding the segments\<close>

definition fresh_segment :: "elf32_phdr \<Rightarrow> loadable_segment" where
  "fresh_segment ph = \<lparr>mem_offset = 0, phdr = ph\<rparr>"

definition executable :: "elf32_phdr \<Rightarrow> bool" where
  "executable ph \<longleftrightarrow> p_flags ph AND (PF_X OR PF_R) = PF_X OR PF_R"

definition loadable :: "elf32_phdr list \<Rightarrow> elf32_phdr list" where
  "loadable hs = filter (\<lambda>ph. p_type ph = PT_LOAD) hs"

lemma read_phdr_type: "read_phdr img off = Inr ph \<Longrightarrow> rd32 img off = Inr (p_type ph)"
  by (auto simp: read_phdr_def bind_r_Inr_iff)

lemma scan_finds:
  assumes "\<forall>i < length hs. read_phdr img (off + sizeof_phdr * i) = Inr (hs ! i)"
    and "\<forall>ph \<in> set hs. p_type ph \<noteq> PT_INTERP"
  shows "scan_phdrs img off (length hs) segms found
    = Inr (Some (segms @ map fresh_segment (loadable hs), found \<or> (\<exists>ph \<in> set (loadable hs). executable ph)))"
  using assms
proof (induction hs arbitrary: off segms found)
  case (Cons ph hs)
  have ph: "read_phdr img off = Inr ph" using Cons.prems(1) by force
  have rest: "\<forall>i < length hs. read_phdr img (off + sizeof_phdr + sizeof_phdr * i) = Inr (hs ! i)"
  proof (intro allI impI)
    fix i assume "i < length hs"
    with Cons.prems(1) [rule_format, of "Suc i"]
    show "read_phdr img (off + sizeof_phdr + sizeof_phdr * i) = Inr (hs ! i)" by (simp add: add.assoc)
  qed
  show ?case
    using Cons.IH [OF rest] Cons.prems(2) ph read_phdr_type [OF ph]
    by (auto simp: loadable_def add_segment_def fresh_segment_def executable_def)
qed (simp add: loadable_def)

section \<open>Copying\<close>

lemma write_range_effect:
  assumes "off + length xs \<le> length im"
  obtains im' where "write_range im off xs = Inr im'" "length im' = length im"
    "\<forall>j < length im. im' ! j = (if off \<le> j \<and> j < off + length xs then xs ! (j - off) else im ! j)"
proof (cases "xs = []")
  case True
  then have "\<forall>j < length im. im ! j = (if off \<le> j \<and> j < off + length xs then xs ! (j - off) else im ! j)"
    by auto
  moreover have "write_range im off xs = Inr im" using True by (simp add: write_range_def)
  ultimately show ?thesis using that by blast
next
  case False
  let ?im = "take off im @ xs @ drop (off + length xs) im"
  have "?im ! j = (if off \<le> j \<and> j < off + length xs then xs ! (j - off) else im ! j)"
    if "j < length im" for j
    using assms that by (auto simp: nth_append min_def)
  with False assms show ?thesis by (intro that [of ?im]) (simp_all add: write_range_def)
qed

lemma read_range_effect:
  "off + n \<le> length img \<Longrightarrow> read_range img off n = Inr (take n (drop off img))"
  by (simp add: read_range_def)

text \<open>Segments in order, none reaching into the next, the last one ending inside the image.\<close>

fun ascending :: "nat \<Rightarrow> loadable_segment list \<Rightarrow> nat \<Rightarrow> bool" where
  "ascending a [] b = (a \<le> b)"
| "ascending a (s # ss) b =
     (a \<le> unat (mem_offset s) \<and> ascending (unat (mem_offset s) + unat (p_memsz (phdr s))) ss b)"

lemma ascending_end: "ascending a ss b \<Longrightarrow> a \<le> b"
  by (induction ss arbitrary: a) (auto dest: le_trans add_leD1)

definition segment_copied :: "u8 list \<Rightarrow> u8 list \<Rightarrow> loadable_segment \<Rightarrow> bool" where
  "segment_copied img im s \<longleftrightarrow> (\<forall>k < unat (p_memsz (phdr s)). im ! (unat (mem_offset s) + k)
     = (if k < unat (p_filesz (phdr s)) then img ! (unat (p_offset (phdr s)) + k) else 0))"

lemma copy_segments_effect:
  assumes "ascending a ss (length im)"
    and "\<forall>s \<in> set ss. p_filesz (phdr s) \<le> p_memsz (phdr s)
      \<and> unat (p_offset (phdr s)) + unat (p_filesz (phdr s)) \<le> length img"
  shows "\<exists>im'. copy_segments img ss im = Inr im' \<and> length im' = length im
    \<and> (\<forall>s \<in> set ss. segment_copied img im' s) \<and> (\<forall>j < a. im' ! j = im ! j)"
  using assms
proof (induction ss arbitrary: a im)
  case (Cons s ss)
  let ?off = "unat (mem_offset s)" and ?f = "unat (p_filesz (phdr s))" and ?m = "unat (p_memsz (phdr s))"
  let ?src = "take ?f (drop (unat (p_offset (phdr s))) img)"
  have fm: "?f \<le> ?m" and src: "unat (p_offset (phdr s)) + ?f \<le> length img"
    using Cons.prems(2) by (auto simp: word_le_nat_alt)
  have asc: "a \<le> ?off" "ascending (?off + ?m) ss (length im)" using Cons.prems(1) by simp_all
  then have fit: "?off + ?m \<le> length im" using ascending_end by blast
  have lsrc: "length ?src = ?f" using src by simp
  obtain im1 where im1: "write_range im ?off ?src = Inr im1" "length im1 = length im"
      "\<forall>j < length im. im1 ! j = (if ?off \<le> j \<and> j < ?off + ?f then ?src ! (j - ?off) else im ! j)"
    using write_range_effect [of ?off ?src im] fit fm lsrc by auto
  have zlen: "unat (p_memsz (phdr s) - p_filesz (phdr s)) = ?m - ?f"
    using Cons.prems(2) by (simp add: unat_sub)
  obtain im2 where im2: "(if p_filesz (phdr s) < p_memsz (phdr s)
        then write_range im1 (?off + ?f) (replicate (unat (p_memsz (phdr s) - p_filesz (phdr s))) 0)
        else Inr im1) = (Inr im2 :: u8 list result)" "length im2 = length im"
      "\<forall>j < length im. im2 ! j = (if ?off + ?f \<le> j \<and> j < ?off + ?m then 0 else im1 ! j)"
  proof (cases "?f < ?m")
    case True
    obtain im2 where "write_range im1 (?off + ?f) (replicate (?m - ?f) 0) = Inr im2" "length im2 = length im1"
      "\<forall>j < length im1. im2 ! j = (if ?off + ?f \<le> j \<and> j < ?off + ?f + length (replicate (?m - ?f) (0 :: u8))
         then replicate (?m - ?f) 0 ! (j - (?off + ?f)) else im1 ! j)"
      using write_range_effect [of "?off + ?f" "replicate (?m - ?f) 0" im1] fit im1(2) True by auto
    with True im1(2) zlen show ?thesis by (intro that [of im2]) (auto simp: word_less_nat_alt)
  next
    case False
    with fm im1(2) show ?thesis by (intro that [of im1]) (auto simp: word_less_nat_alt)
  qed
  have im2_nth: "im2 ! j = (if ?off \<le> j \<and> j < ?off + ?m
      then (if j < ?off + ?f then ?src ! (j - ?off) else 0) else im ! j)" if "j < length im" for j
    using im1(3) im2(3) that fm by auto
  have "ascending (?off + ?m) ss (length im2)" using asc(2) im2(2) by simp
  then obtain im' where im': "copy_segments img ss im2 = Inr im'" "length im' = length im"
      "\<forall>s \<in> set ss. segment_copied img im' s" "\<forall>j < ?off + ?m. im' ! j = im2 ! j"
    using Cons.IH [of "?off + ?m" im2] Cons.prems(2) im2(2) by auto
  have "segment_copied img im' s"
    unfolding segment_copied_def using im'(4) im2_nth fit src fm by auto
  moreover have "\<forall>j < a. im' ! j = im ! j"
    using im'(4) im2_nth asc(1) fit by auto
  moreover have "copy_segments img (s # ss) im = Inr im'"
    using im1(1) im2(1) im'(1) read_range_effect [OF src] by (simp add: Let_def del: fun_upd_apply)
  ultimately show ?case using im' by auto
qed simp

section \<open>Layout\<close>

definition round_up :: "nat \<Rightarrow> nat \<Rightarrow> nat" where
  "round_up page n = (n + (page - 1)) div page * page"

lemma round_up_least:
  assumes "0 < page"
  shows "page dvd round_up page n" "n \<le> round_up page n" "page dvd r \<Longrightarrow> n \<le> r \<Longrightarrow> round_up page n \<le> r"
    "round_up page n < n + page"
proof -
  show "page dvd round_up page n" "n \<le> round_up page n" "page dvd r \<Longrightarrow> n \<le> r \<Longrightarrow> round_up page n \<le> r"
    using is_align_up_div [OF assms, of n] by (auto simp: is_align_up_def round_up_def)
  show "round_up page n < n + page"
    using assms div_times_less_eq_dividend [of "n + (page - 1)" page] unfolding round_up_def by linarith
qed

lemma round_up_id: "0 < page \<Longrightarrow> page dvd n \<Longrightarrow> round_up page n = n"
  using round_up_least [of page n] by (meson dual_order.antisym order_refl)

lemma round_up_add: "0 < page \<Longrightarrow> page dvd a \<Longrightarrow> round_up page (a + n) = a + round_up page n"
proof -
  assume P: "0 < page" and a: "page dvd a"
  note r = round_up_least [OF P]
  have "round_up page (a + n) \<le> a + round_up page n"
    using a r(1,2) by (intro r(3)) simp_all
  moreover have "round_up page n \<le> round_up page (a + n) - a"
  proof (rule r(3))
    show "page dvd round_up page (a + n) - a" using a r(1) by (rule dvd_diff_nat [rotated])
    show "n \<le> round_up page (a + n) - a" using r(2) [of "a + n"] by linarith
  qed
  moreover have "a \<le> round_up page (a + n)" using r(2) [of "a + n"] by linarith
  ultimately show ?thesis by linarith
qed

text \<open>
  A well-formed segment on a system with pages of \<open>2 ^ p\<close> bytes, and the headers of
  segments each of which starts on the first page after the one before.
\<close>

definition segment_ok :: "nat \<Rightarrow> elf32_phdr \<Rightarrow> bool" where
  "segment_ok p ph \<longleftrightarrow> p_align ph = 2 ^ p \<and> p_filesz ph \<le> p_memsz ph
     \<and> unat (p_vaddr ph) + unat (p_memsz ph) + 2 ^ p \<le> 2 ^ 32"

fun follow_on :: "nat \<Rightarrow> elf32_phdr \<Rightarrow> elf32_phdr list \<Rightarrow> bool" where
  "follow_on p ph [] = True"
| "follow_on p ph (ph' # phs) =
     (unat (p_vaddr ph') = round_up (2 ^ p) (unat (p_vaddr ph) + unat (p_memsz ph)) \<and> follow_on p ph' phs)"

text \<open>Where a segment belongs: at its distance from the first.\<close>

definition image_offset :: "elf32_phdr \<Rightarrow> elf32_phdr \<Rightarrow> nat" where
  "image_offset first ph = unat (p_vaddr ph) - unat (p_vaddr first)"

definition placed_at :: "elf32_phdr \<Rightarrow> elf32_phdr \<Rightarrow> loadable_segment" where
  "placed_at first ph = \<lparr>mem_offset = of_nat (image_offset first ph), phdr = ph\<rparr>"

lemma image_offset_u64: "unat (of_nat (image_offset first ph) :: u64) = image_offset first ph"
  using unat_u32_less [of "p_vaddr ph"] by (intro unat_u64_of_nat) (simp add: image_offset_def)

lemma unat_ucast_32_64: "unat (ucast w :: u64) = unat w" for w :: u32
  by (rule unat_ucast_u64)

text \<open>The offset the loop computes for the next segment, before the page is changed.\<close>

lemma next_offset:
  assumes p: "p < 32" and ok: "segment_ok p prev" "segment_ok p ph"
    and nxt: "unat (p_vaddr ph) = round_up (2 ^ p) (unat (p_vaddr prev) + unat (p_memsz prev))"
    and al: "2 ^ p dvd unat (p_vaddr prev)" "2 ^ p dvd unat (p_vaddr first)"
      "unat (p_vaddr first) \<le> unat (p_vaddr prev)"
    and n: "unat n = image_offset first prev + unat (p_memsz prev)"
  shows "unat (align_segment (skip_gap n (placed_at first prev) ph) ph) = image_offset first ph"
    (is "unat (align_segment ?g ph) = _")
proof -
  let ?P = "(2 :: nat) ^ p" and ?m = "unat (p_memsz prev)" and ?o = "image_offset first prev"
  define D where "D = round_up ?P ?m"
  have P: "0 < ?P" by simp
  have v: "unat (p_vaddr ph) = unat (p_vaddr prev) + D"
    using nxt round_up_add [OF P al(1)] by (simp add: D_def)
  have o: "image_offset first ph = ?o + D" using v al(3) by (simp add: image_offset_def)
  have "?o \<le> unat (p_vaddr prev)" by (simp add: image_offset_def)
  moreover have "unat (p_vaddr ph) + ?P \<le> 2 ^ 32" using ok(2) by (simp add: segment_ok_def)
  ultimately have o32: "?o + D + ?P \<le> 2 ^ 32" using v by linarith
  have Po: "?P dvd ?o" using al by (simp add: image_offset_def dvd_diff_nat)
  have mD: "?m \<le> D" "D < ?m + ?P" "?P dvd D" using round_up_least [OF P] by (simp_all add: D_def)
  have "p_vaddr prev \<le> p_vaddr ph" using v by (simp add: word_le_nat_alt)
  then have dbs: "unat (ucast (p_vaddr ph - p_vaddr prev) :: u64) = D"
    using v by (simp add: unat_ucast_32_64 unat_sub)
  then have "(ucast (p_memsz prev) :: u64) \<le> ucast (p_vaddr ph - p_vaddr prev)"
    using mD(1) by (simp add: word_le_nat_alt unat_ucast_32_64)
  then have dets: "unat (ucast (p_vaddr ph - p_vaddr prev) - ucast (p_memsz prev) :: u64) = D - ?m"
    using dbs by (simp add: unat_sub unat_ucast_32_64)
  have mo: "unat (mem_offset (placed_at first prev)) = ?o"
    using image_offset_u64 by (simp add: placed_at_def)
  then have "mem_offset (placed_at first prev) \<le> n" using n by (simp add: word_le_nat_alt)
  then have cur: "unat (n - mem_offset (placed_at first prev)) = ?m" using n mo by (simp add: unat_sub)
  have g: "unat ?g = (if ?m < D - ?m then ?o + (D - ?m) else ?o + ?m)"
  proof (cases "?m < D - ?m")
    case True
    let ?x = "ucast (p_vaddr ph - p_vaddr prev) - ucast (p_memsz prev) :: u64"
    let ?c = "n - mem_offset (placed_at first prev)"
    have lt: "?c < ?x" using True cur dets by (simp add: word_less_nat_alt)
    then have "unat (?x - ?c) = D - ?m - ?m" using cur dets by (simp add: unat_sub)
    moreover have "?o + ?m + (D - ?m - ?m) \<le> 2 ^ 32" using o32 mD(1) by linarith
    then have "?o + ?m + (D - ?m - ?m) < 2 ^ 64" by simp
    ultimately have sum: "unat n + unat (?x - ?c) = ?o + ?m + (D - ?m - ?m)"
      and lt64: "unat n + unat (?x - ?c) < 2 ^ LENGTH(64)" using n by simp_all
    have "unat (n + (?x - ?c)) = unat n + unat (?x - ?c)"
      using lt64 by (rule iffD1 [OF unat_add_lem])
    from trans [OF this sum] have "unat (n + (?x - ?c)) = ?o + ?m + (D - ?m - ?m)" .
    with True lt show ?thesis by (simp add: skip_gap_def Let_def placed_at_def)
  next
    case False
    then have "\<not> n - mem_offset (placed_at first prev) < ucast (p_vaddr ph - p_vaddr prev) - ucast (p_memsz prev)"
      using cur dets by (simp add: word_less_nat_alt)
    with False n show ?thesis by (simp add: skip_gap_def Let_def placed_at_def)
  qed
  have gD: "?o \<le> unat ?g" "unat ?g \<le> ?o + D" "D \<noteq> 0 \<Longrightarrow> ?o < unat ?g"
    using g mD by (auto split: if_splits)
  have up: "unat (align_upwards64 ?g (2 ^ p)) = round_up ?P (unat ?g)"
    using p gD(2) o32 by (subst align_upwards64_eq) (simp_all add: round_up_def)
  have "round_up ?P (unat ?g) = ?o + D"
  proof -
    obtain c where c: "unat ?g = ?o + c" using gD(1) le_Suc_ex by blast
    have "?m \<le> c" using g c mD(1) by (simp split: if_splits)
    have "round_up ?P c = D"
    proof (rule antisym)
      show "round_up ?P c \<le> D" using round_up_least(3) [OF P mD(3)] gD(2) c by simp
      show "D \<le> round_up ?P c"
        unfolding D_def using le_trans [OF \<open>?m \<le> c\<close> round_up_least(2) [OF P]]
        by (intro round_up_least(3) [OF P] round_up_least(1) [OF P])
    qed
    then show ?thesis using round_up_add [OF P Po] c by simp
  qed
  moreover have "2 \<le> p_align ph \<or> p = 0"
    using ok(2) p unat_2_power [of p, where 'a = 32] self_le_power [of 2 p]
    by (cases p) (auto simp: segment_ok_def word_le_nat_alt)
  moreover have "ucast (p_align ph) = (2 ^ p :: u64)"
    using ok(2) p by (intro unat_eqI) (simp add: segment_ok_def unat_ucast_32_64 unat_2_power)
  ultimately show ?thesis using up o g mD by (auto simp: align_segment_def round_up_def D_def)
qed

text \<open>Pages that follow each other from \<open>a\<close> to \<open>b\<close>, and the one a segment lies in.\<close>

fun chained :: "nat \<Rightarrow> nat \<Rightarrow> page_descr list \<Rightarrow> nat \<Rightarrow> bool" where
  "chained page a [] b = (a = b)"
| "chained page a (pg # pgs) b = (unat (offset_from_mmap pg) = a \<and> page dvd unat (page_bytes pg)
     \<and> chained page (a + unat (page_bytes pg)) pgs b)"

lemma chained_append: "chained page a (xs @ [pg]) b \<longleftrightarrow>
    chained page a xs (unat (offset_from_mmap pg)) \<and> page dvd unat (page_bytes pg)
    \<and> b = unat (offset_from_mmap pg) + unat (page_bytes pg)"
  by (induction xs arbitrary: a) auto

definition covers :: "page_descr \<Rightarrow> nat \<Rightarrow> elf32_phdr \<Rightarrow> bool" where
  "covers pg off ph \<longleftrightarrow> flags pg = ucast (p_flags ph) \<and> unat (offset_from_mmap pg) \<le> off
     \<and> off + unat (p_memsz ph) \<le> unat (offset_from_mmap pg) + unat (page_bytes pg)"

definition lay_ok :: "nat \<Rightarrow> elf32_phdr list \<Rightarrow> page_descr list \<Rightarrow> page_descr \<Rightarrow> layout \<Rightarrow> bool" where
  "lay_ok p phs before cur l \<longleftrightarrow>
     (let off = image_offset (hd phs); prev = last phs in
      placed l = map (placed_at (hd phs)) phs \<and> prev_segment l = placed_at (hd phs) prev
      \<and> unat (next_segment_offset l) = off prev + unat (p_memsz prev)
      \<and> 2 ^ p dvd unat (p_vaddr prev) \<and> unat (p_vaddr (hd phs)) \<le> unat (p_vaddr prev)
      \<and> pages l = before @ [cur] \<and> chained (2 ^ p) 0 before (unat (offset_from_mmap cur))
      \<and> 2 ^ p dvd unat (offset_from_mmap cur) \<and> unat (offset_from_mmap cur) \<le> off prev
      \<and> (\<forall>ph \<in> set phs. off ph + unat (p_memsz ph) \<le> unat (next_segment_offset l)
           \<and> ((\<exists>pg \<in> set before. covers pg (off ph) ph)
              \<or> flags cur = ucast (p_flags ph) \<and> unat (offset_from_mmap cur) \<le> off ph)))"

lemma layout_first_ok:
  assumes "2 ^ p dvd unat (p_vaddr ph)"
  shows "lay_ok p [ph] [] \<lparr>offset_from_mmap = 0, flags = ucast (p_flags ph), page_bytes = 0\<rparr>
    (layout_first ph entry)"
  using assms by (simp add: lay_ok_def layout_first_def image_offset_def placed_at_def add_page_def
      unat_ucast_32_64 Let_def)

lemma layout_step_ok:
  assumes p: "p < 32" and l: "lay_ok p phs before cur l" "phs \<noteq> []"
    and ok: "segment_ok p (last phs)" "segment_ok p ph" "2 ^ p dvd unat (p_vaddr (hd phs))"
    and nxt: "unat (p_vaddr ph) = round_up (2 ^ p) (unat (p_vaddr (last phs)) + unat (p_memsz (last phs)))"
  obtains before' cur' where "lay_ok p (phs @ [ph]) before' cur' (layout_step (2 ^ p) entry l ph)"
proof -
  let ?P = "(2 :: nat) ^ p" and ?off = "image_offset (hd phs)" and ?n = "next_segment_offset l"
  have P: "0 < ?P" by simp
  have li: "placed l = map (placed_at (hd phs)) phs" "prev_segment l = placed_at (hd phs) (last phs)"
    "unat ?n = ?off (last phs) + unat (p_memsz (last phs))" "?P dvd unat (p_vaddr (last phs))"
    "unat (p_vaddr (hd phs)) \<le> unat (p_vaddr (last phs))" "pages l = before @ [cur]"
    "chained ?P 0 before (unat (offset_from_mmap cur))" "?P dvd unat (offset_from_mmap cur)"
    "unat (offset_from_mmap cur) \<le> ?off (last phs)"
    using l(1) by (simp_all add: lay_ok_def Let_def)
  have cov: "?off q + unat (p_memsz q) \<le> unat ?n"
    "(\<exists>pg \<in> set before. covers pg (?off q) q)
       \<or> flags cur = ucast (p_flags q) \<and> unat (offset_from_mmap cur) \<le> ?off q" if "q \<in> set phs" for q
    using l(1) that by (auto simp: lay_ok_def Let_def)
  define a where "a = align_segment (skip_gap ?n (prev_segment l) ph) ph"
  have ua: "unat a = ?off ph"
    unfolding a_def li(2) by (rule next_offset [OF p ok(1,2) nxt li(4) ok(3) li(5,3)])
  have vP: "?P dvd unat (p_vaddr ph)" using nxt round_up_least(1) [OF P] by simp
  have vle: "unat (p_vaddr (last phs)) + unat (p_memsz (last phs)) \<le> unat (p_vaddr ph)"
    using nxt round_up_least(2) [OF P] by simp
  then have nle: "unat ?n \<le> ?off ph" using li(3,5) by (simp add: image_offset_def)
  have oP: "?P dvd ?off ph" using vP ok(3) by (simp add: image_offset_def dvd_diff_nat)
  have bound: "?off ph + unat (p_memsz ph) + ?P \<le> 2 ^ 32"
    using ok(2) by (auto simp: segment_ok_def image_offset_def)
  then have aa: "align_upwards64 a (2 ^ p) = a"
    using p ua oP round_up_id [OF P oP]
    by (intro unat_eqI) (subst align_upwards64_eq, simp_all add: round_up_def)
  have lt64: "unat a + unat (ucast (p_memsz ph) :: u64) < 2 ^ LENGTH(64)"
    using bound ua by (simp add: unat_ucast_32_64)
  have un: "unat (a + ucast (p_memsz ph)) = ?off ph + unat (p_memsz ph)"
    using iffD1 [OF unat_add_lem lt64] ua by (simp add: unat_ucast_32_64)
  have pl: "\<lparr>mem_offset = a, phdr = ph\<rparr> = placed_at (hd phs) ph"
    unfolding placed_at_def using ua by (metis of_nat_unat ucast_id)
  let ?l = "layout_step (2 ^ p) entry l ph"
  have cm: "placed ?l = map (placed_at (hd phs)) (phs @ [ph])" "prev_segment ?l = placed_at (hd phs) ph"
    "next_segment_offset ?l = a + ucast (p_memsz ph)"
    using aa pl li(1) by (simp_all add: layout_step_def Let_def flip: a_def)
  have hd: "hd (phs @ [ph]) = hd phs" using l(2) by simp
  show thesis
  proof (cases "p_flags ph = ucast (flags cur)")
    case True
    then have "pages ?l = before @ [cur]" using li(6) by (simp add: layout_step_def Let_def)
    moreover have "flags cur = ucast (p_flags ph)" unfolding True by (rule bit_word_eqI) (simp add: bit_simps)
    ultimately have "lay_ok p (phs @ [ph]) before cur ?l"
      using cm un vP vle li nle cov unfolding lay_ok_def hd Let_def
      by (auto simp: le_trans) (meson le_trans le_add1)+
    then show thesis by (rule that)
  next
    case False
    let ?cur = "cur\<lparr>page_bytes := a - offset_from_mmap cur\<rparr>"
    let ?new = "\<lparr>offset_from_mmap = a, flags = ucast (p_flags ph), page_bytes = 0\<rparr> :: page_descr"
    have pg: "pages ?l = (before @ [?cur]) @ [?new]"
      using False li(6) aa by (simp add: layout_step_def Let_def set_page_end_def add_page_def flip: a_def)
    have cl: "unat (offset_from_mmap cur) \<le> ?off ph" using li(9,3) nle by linarith
    then have cb: "unat (a - offset_from_mmap cur) = ?off ph - unat (offset_from_mmap cur)"
      using ua by (simp add: unat_sub word_le_nat_alt)
    have "?P dvd ?off ph - unat (offset_from_mmap cur)" using oP li(8) by (rule dvd_diff_nat)
    then have ch: "chained ?P 0 (before @ [?cur]) (unat a)"
      unfolding chained_append using li(7) cb ua cl by simp
    have "\<exists>pg \<in> set (before @ [?cur]). covers pg (?off q) q" if q: "q \<in> set phs" for q
    proof (cases "\<exists>pg \<in> set before. covers pg (?off q) q")
      case False
      with cov(2) [OF q] have "covers ?cur (?off q) q"
        using cov(1) [OF q] nle cb cl by (auto simp: covers_def)
      then show ?thesis by simp
    qed auto
    then have "lay_ok p (phs @ [ph]) (before @ [?cur]) ?new ?l"
      using cm un vP vle li nle cov(1) ch oP ua pg unfolding lay_ok_def hd Let_def by fastforce
    then show thesis by (rule that)
  qed
qed

text \<open>The whole layout.\<close>

lemma layout_fold:
  assumes "p < 32" "2 ^ p dvd unat (p_vaddr (hd phs))" "phs \<noteq> []"
    and "lay_ok p phs before cur l" "segment_ok p (last phs)" "\<forall>ph \<in> set rest. segment_ok p ph"
    and "follow_on p (last phs) rest"
  shows "\<exists>before' cur'. lay_ok p (phs @ rest) before' cur' (foldl (layout_step (2 ^ p) entry) l rest)"
  using assms(2-)
proof (induction rest arbitrary: phs before cur l)
  case (Cons ph rest)
  obtain before' cur' where l: "lay_ok p (phs @ [ph]) before' cur' (layout_step (2 ^ p) entry l ph)"
    using layout_step_ok [OF assms(1) Cons.prems(3,2,4), of ph entry] Cons.prems(1,5,6) by auto
  show ?case
    using Cons.IH [OF _ _ l] Cons.prems by simp
qed auto

lemma layout_segments_ok:
  assumes "p < 32" "2 ^ p dvd unat (p_vaddr first)" "\<forall>ph \<in> set (first # rest). segment_ok p ph"
    "follow_on p first rest"
    and l: "l = layout_segments (2 ^ p) entry ent0 (first # rest)"
  obtains before cur where "placed l = map (placed_at first) (first # rest)"
    "pages l = before @ [cur]" "chained (2 ^ p) 0 before (unat (offset_from_mmap cur))"
    "\<forall>ph \<in> set (first # rest). (\<exists>pg \<in> set (pages l). covers pg (image_offset first ph) ph)
       \<and> image_offset first ph + unat (p_memsz ph) \<le> unat (next_segment_offset l)"
    "unat (next_segment_offset l) \<le> 2 ^ 32"
proof -
  obtain before cur where k: "lay_ok p (first # rest) before cur
      (foldl (layout_step (2 ^ p) entry) (layout_first first ent0) rest)" (is "lay_ok _ _ _ _ ?k")
    using layout_fold [OF assms(1) _ _ layout_first_ok [OF assms(2), of ent0], of rest entry] assms(2-4) by auto
  let ?n = "next_segment_offset ?k" and ?cur = "cur\<lparr>page_bytes := next_segment_offset ?k - offset_from_mmap cur\<rparr>"
  have "pages ?k = before @ [cur]" using k by (simp add: lay_ok_def Let_def)
  then have l': "pages l = before @ [?cur]" "placed l = placed ?k" "next_segment_offset l = ?n"
    using l by (simp_all add: layout_segments_def set_page_end_def Let_def)
  have "unat (offset_from_mmap cur) \<le> unat ?n"
    using k by (simp add: lay_ok_def Let_def)
  then have cb: "unat (?n - offset_from_mmap cur) = unat ?n - unat (offset_from_mmap cur)"
    by (simp add: unat_sub word_le_nat_alt)
  have "(\<exists>pg \<in> set (pages l). covers pg (image_offset first ph) ph)
      \<and> image_offset first ph + unat (p_memsz ph) \<le> unat ?n" if q: "ph \<in> set (first # rest)" for ph
  proof -
    have c: "image_offset first ph + unat (p_memsz ph) \<le> unat ?n"
      "(\<exists>pg \<in> set before. covers pg (image_offset first ph) ph)
        \<or> flags cur = ucast (p_flags ph) \<and> unat (offset_from_mmap cur) \<le> image_offset first ph"
      using k q by (auto simp: lay_ok_def Let_def)
    show ?thesis
    proof (cases "\<exists>pg \<in> set before. covers pg (image_offset first ph) ph")
      case False
      with c have "covers ?cur (image_offset first ph) ph" using cb by (auto simp: covers_def)
      with c(1) l'(1) show ?thesis by auto
    qed (use c(1) l'(1) in auto)
  qed
  moreover have "chained (2 ^ p) 0 before (unat (offset_from_mmap ?cur))"
    "placed ?k = map (placed_at first) (first # rest)"
    using k by (simp_all add: lay_ok_def Let_def)
  moreover have "segment_ok p (last (first # rest))" using assms(3) last_in_set by blast
  then have "unat ?n \<le> 2 ^ 32"
    using k by (auto simp: lay_ok_def Let_def segment_ok_def image_offset_def)
  ultimately show thesis using that [of before ?cur] l' by simp
qed

section \<open>Protections\<close>

lemma protect_pages_effect:
  assumes "0 < unat (page_size os)" "\<forall>a n pr. mprotect os a n pr = None"
    "chained (unat (page_size os)) a before (unat (offset_from_mmap cur))"
  shows "\<exists>prot'. protect_pages os base (before @ [cur]) prot = Inr prot'
    \<and> (\<forall>pg \<in> set (before @ [cur]). \<forall>k. unat (offset_from_mmap pg) \<le> k
         \<and> k < unat (offset_from_mmap pg) + unat (page_bytes pg) \<longrightarrow> prot' k = page_prot pg)
    \<and> (\<forall>k < a. prot' k = prot k)"
  using assms(3)
proof (induction before arbitrary: a prot)
  case Nil
  then show ?case using assms(1,2) pages_len_ge [OF assms(1), of "unat (page_bytes cur)"] by auto
next
  case (Cons pg pgs)
  let ?prot = "\<lambda>k. if unat (offset_from_mmap pg) \<le> k
    \<and> k < unat (offset_from_mmap pg) + pages_len os (unat (page_bytes pg)) then page_prot pg else prot k"
  have len: "pages_len os (unat (page_bytes pg)) = unat (page_bytes pg)"
    using Cons.prems pages_len_multiple assms(1) by simp
  have a: "unat (offset_from_mmap pg) = a" using Cons.prems by simp
  from Cons.IH [of "a + unat (page_bytes pg)" ?prot] Cons.prems obtain prot'
    where "protect_pages os base (pgs @ [cur]) ?prot = Inr prot'"
      "\<forall>q \<in> set (pgs @ [cur]). \<forall>k. unat (offset_from_mmap q) \<le> k
         \<and> k < unat (offset_from_mmap q) + unat (page_bytes q) \<longrightarrow> prot' k = page_prot q"
      "\<forall>k < a + unat (page_bytes pg). prot' k = ?prot k" by auto
  then show ?case using assms(2) a len by auto
qed

lemma bit_ucast_u8: "bit (ucast (ucast w :: u8) :: u32) k \<longleftrightarrow> k < 8 \<and> bit w k" for w :: u32
  by (auto simp: bit_simps)

lemma hasflag_simps:
  "flags pg = ucast fl \<Longrightarrow> f \<in> {PF_X, PF_W, PF_R} \<Longrightarrow> hasflag pg f \<longleftrightarrow> fl AND f \<noteq> 0"
proof -
  assume fl: "flags pg = ucast fl" and "f \<in> {PF_X, PF_W, PF_R}"
  then have "f = take_bit 8 f" by (auto simp: PF_X_def PF_W_def PF_R_def)
  then have "ucast (ucast fl :: u8) AND f = fl AND f"
    by (intro bit_word_eqI) (metis (no_types, lifting) bit_and_iff bit_take_bit_iff bit_ucast_u8)
  then show ?thesis by (simp add: hasflag_def fl)
qed

lemma page_prot_bits:
  "page_prot pg AND PROT_READ \<noteq> 0 \<longleftrightarrow> hasflag pg PF_R"
  "page_prot pg AND PROT_WRITE \<noteq> 0 \<longleftrightarrow> hasflag pg PF_W"
  by (auto simp: page_prot_def PROT_READ_def PROT_WRITE_def PROT_EXEC_def)

section \<open>Files without relocations\<close>

definition no_relocations :: "u8 list \<Rightarrow> elf32_ehdr \<Rightarrow> bool" where
  "no_relocations img h \<longleftrightarrow>
     (let shoff = unat (e_shoff h) in
      (e_shoff h \<noteq> 0 \<longrightarrow> (\<exists>x. sh_offset img (shoff + sizeof_shdr * unat (e_shstrndx h)) = Inr x))
      \<and> (\<forall>i < unat (e_shnum h). (\<exists>n. sh_name img (shoff + sizeof_shdr * i) = Inr n)
           \<and> (\<exists>t. sh_type img (shoff + sizeof_shdr * i) = Inr t \<and> t \<noteq> SHT_RELA)))"

lemma relocate_nothing:
  assumes "no_relocations img h" shows "relocate_image nd img h segms im = Inr (Relocated im)"
proof -
  have "relocate_sections nd img shoff shnames segms shdr n im = Inr (Relocated im)"
    if "\<forall>i < n. (\<exists>x. sh_name img (shdr + sizeof_shdr * i) = Inr x)
        \<and> (\<exists>t. sh_type img (shdr + sizeof_shdr * i) = Inr t \<and> t \<noteq> SHT_RELA)" for shoff shnames shdr n
    using that
  proof (induction n arbitrary: shdr)
    case (Suc n)
    have "\<forall>i < n. (\<exists>x. sh_name img (shdr + sizeof_shdr + sizeof_shdr * i) = Inr x)
        \<and> (\<exists>t. sh_type img (shdr + sizeof_shdr + sizeof_shdr * i) = Inr t \<and> t \<noteq> SHT_RELA)"
      using Suc.prems all_less_Suc_split [of n] by (simp add: add.assoc)
    from Suc.IH [OF this] Suc.prems [rule_format, of 0] show ?case by auto
  qed simp
  then show ?thesis using assms by (auto simp: no_relocations_def relocate_image_def Let_def)
qed

text \<open>Relocations, if any, that leave the image of these segments as it is.\<close>

definition relocates_neutrally ::
  "bool \<Rightarrow> u8 list \<Rightarrow> elf32_ehdr \<Rightarrow> loadable_segment list \<Rightarrow> bool" where
  "relocates_neutrally nd img h segms \<longleftrightarrow>
     (\<forall>im. (\<forall>s \<in> set segms. unat (mem_offset s) + unat (p_memsz (phdr s)) \<le> length im)
        \<longrightarrow> relocate_image nd img h segms im = Inr (Relocated im))"

section \<open>The image\<close>

text \<open>
  An executable of this kind: \<open>hs\<close> are its program headers, of which \<open>first # rest\<close> are
  to be loaded, on a system with pages of \<open>2 ^ p\<close> bytes.
\<close>

definition elf_headers_ok ::
  "nat \<Rightarrow> os \<Rightarrow> u8 list \<Rightarrow> elf32_ehdr \<Rightarrow> elf32_phdr list \<Rightarrow> elf32_phdr \<Rightarrow> elf32_phdr list \<Rightarrow> bool" where
  "elf_headers_ok p os file h hs first rest \<longleftrightarrow>
     (let img = padded os file in
      page_size os = 2 ^ p \<and> p < 32
      \<and> read_range img 0 (length expected_ident) = Inr expected_ident
      \<and> read_ehdr img = Inr h \<and> e_machine h = EM_RISCV
      \<and> unat (e_phentsize h) = sizeof_phdr \<and> unat (e_phnum h) = length hs
      \<and> (\<forall>i < length hs. read_phdr img (unat (e_phoff h) + sizeof_phdr * i) = Inr (hs ! i))
      \<and> (\<forall>ph \<in> set hs. p_type ph \<noteq> PT_INTERP)
      \<and> loadable hs = first # rest \<and> (\<exists>ph \<in> set (first # rest). executable ph)
      \<and> 2 ^ p dvd unat (p_vaddr first) \<and> follow_on p first rest
      \<and> (\<forall>ph \<in> set (first # rest). segment_ok p ph
           \<and> unat (p_offset ph) + unat (p_filesz ph) \<le> length img))"

definition elf_ok ::
  "nat \<Rightarrow> os \<Rightarrow> u8 list \<Rightarrow> elf32_ehdr \<Rightarrow> elf32_phdr list \<Rightarrow> elf32_phdr \<Rightarrow> elf32_phdr list \<Rightarrow> bool" where
  "elf_ok p os file h hs first rest \<longleftrightarrow>
     elf_headers_ok p os file h hs first rest \<and> no_relocations (padded os file) h"

lemma placed_at_fields: "unat (mem_offset (placed_at first ph)) = image_offset first ph"
  "phdr (placed_at first ph) = ph"
  using image_offset_u64 by (simp_all add: placed_at_def)

lemma placed_ascending:
  assumes "follow_on p ph rest" "unat (p_vaddr first) \<le> unat (p_vaddr ph)"
    and "\<forall>q \<in> set (ph # rest). image_offset first q + unat (p_memsz q) \<le> n" "a \<le> image_offset first ph"
  shows "ascending a (map (placed_at first) (ph # rest)) n"
  using assms
proof (induction rest arbitrary: ph a)
  case Nil
  then show ?case by (simp add: placed_at_fields)
next
  case (Cons q rest)
  have "unat (p_vaddr ph) + unat (p_memsz ph) \<le> unat (p_vaddr q)"
    using Cons.prems(1) round_up_least(2) [of "2 ^ p"] by simp
  then have "image_offset first ph + unat (p_memsz ph) \<le> image_offset first q"
    "unat (p_vaddr first) \<le> unat (p_vaddr q)"
    using Cons.prems(2) by (simp_all add: image_offset_def)
  then have "ascending (image_offset first ph + unat (p_memsz ph)) (map (placed_at first) (q # rest)) n"
    using Cons.prems(1,3) by (intro Cons.IH) simp_all
  then show ?case using Cons.prems(4) by (simp add: placed_at_fields)
qed

text \<open>The byte of the file, or the zero, that belongs at \<open>k\<close> of a segment.\<close>

definition segment_byte :: "u8 list \<Rightarrow> elf32_phdr \<Rightarrow> nat \<Rightarrow> u8" where
  "segment_byte img ph k = (if k < unat (p_filesz ph) then img ! (unat (p_offset ph) + k) else 0)"

lemma load_image_loads:
  assumes pg: "page_size os = 2 ^ p" "p < 32" and al: "2 ^ p dvd unat (p_vaddr first)"
    and segs: "\<forall>ph \<in> set (first # rest). segment_ok p ph
      \<and> unat (p_offset ph) + unat (p_filesz ph) \<le> length img" "follow_on p first rest"
    and reloc: "relocates_neutrally nd img h (map (placed_at first) (first # rest))"
    and os: "mmap_anon os (next_segment_offset l) = Inr base" "\<forall>a n pr. mprotect os a n pr = None"
    and l: "l = layout_segments (2 ^ p) entry ent0 (first # rest)"
  obtains exe' m' where "load_image nd os img h l ret exe m = Inr (ret, exe', m')"
    "exe_mem exe' = base" "entrypoint exe' = ucast (e_entry h - p_vaddr first)"
    "\<forall>ph \<in> set (first # rest). \<forall>k < unat (p_memsz ph).
       (p_flags ph AND PF_R \<noteq> 0 \<longrightarrow>
         cells m' (base + of_nat (image_offset first ph + k)) = Some (segment_byte img ph k))
       \<and> writable m' (base + of_nat (image_offset first ph + k)) = (p_flags ph AND PF_W \<noteq> 0)"
proof -
  have seg: "\<forall>ph \<in> set (first # rest). segment_ok p ph" using segs(1) by blast
  obtain before cur where lay: "placed l = map (placed_at first) (first # rest)"
    "pages l = before @ [cur]" "chained (2 ^ p) 0 before (unat (offset_from_mmap cur))"
    "\<forall>ph \<in> set (first # rest). (\<exists>pg \<in> set (pages l). covers pg (image_offset first ph) ph)
       \<and> image_offset first ph + unat (p_memsz ph) \<le> unat (next_segment_offset l)"
    "unat (next_segment_offset l) \<le> 2 ^ 32"
    using layout_segments_ok [OF pg(2) al seg segs(2) l] by metis
  have pos: "unat (page_size os) = 2 ^ p" "0 < unat (page_size os)"
    using pg by (simp_all add: unat_2_power)
  define sz where "sz = pages_len os (unat (next_segment_offset l))"
  have sz: "unat (next_segment_offset l) \<le> sz" "sz \<le> 2 ^ 64"
  proof -
    have "sz = round_up (2 ^ p) (unat (next_segment_offset l))"
      by (simp add: sz_def pages_len_def round_up_def pos(1))
    then have "unat (next_segment_offset l) \<le> sz" "sz < unat (next_segment_offset l) + 2 ^ p"
      using round_up_least [of "2 ^ p"] by simp_all
    moreover have "(2 :: nat) ^ p \<le> 2 ^ 32" using pg(2) by (intro power_increasing) simp_all
    moreover have "(2 :: nat) ^ 32 + 2 ^ 32 \<le> 2 ^ 64" by simp
    ultimately show "unat (next_segment_offset l) \<le> sz" "sz \<le> 2 ^ 64"
      using lay(5) by linarith+
  qed
  have "ascending 0 (placed l) (length (replicate sz (0 :: u8)))"
    unfolding lay(1) using lay(4) sz(1) le_trans
    by (intro placed_ascending [OF segs(2)]) fastforce+
  moreover have "\<forall>s \<in> set (placed l). p_filesz (phdr s) \<le> p_memsz (phdr s)
      \<and> unat (p_offset (phdr s)) + unat (p_filesz (phdr s)) \<le> length img"
    unfolding lay(1) using segs(1) by (auto simp: placed_at_def segment_ok_def)
  ultimately obtain im where im: "copy_segments img (placed l) (replicate sz 0) = Inr im"
    "length im = sz" "\<forall>s \<in> set (placed l). segment_copied img im s"
    using copy_segments_effect [of 0 "placed l" "replicate sz 0" img] by auto
  obtain prot where prot: "protect_pages os base (pages l) (\<lambda>_. PROT_READ OR PROT_WRITE) = Inr prot"
    "\<forall>pg \<in> set (pages l). \<forall>k. unat (offset_from_mmap pg) \<le> k
       \<and> k < unat (offset_from_mmap pg) + unat (page_bytes pg) \<longrightarrow> prot k = page_prot pg"
    using protect_pages_effect [OF pos(2) os(2), of 0 before cur base] lay(3) pos(1) unfolding lay(2) by metis
  let ?exe = "exe\<lparr>exe_mem := base, mem_count := next_segment_offset l,
    entrypoint := ucast (e_entry h - p_vaddr first)\<rparr>"
  let ?m = "map_block base im (\<lambda>k. prot k AND PROT_READ \<noteq> 0) (\<lambda>k. prot k AND PROT_WRITE \<noteq> 0) m"
  have "\<forall>s \<in> set (map (placed_at first) (first # rest)). unat (mem_offset s) + unat (p_memsz (phdr s)) \<le> length im"
    using lay(4) sz(1) im(2) by (fastforce simp: placed_at_fields)
  then have "relocate_image nd img h (placed l) im = Inr (Relocated im)"
    using reloc unfolding relocates_neutrally_def lay(1) by blast
  moreover have "phdr (hd (placed l)) = first" unfolding lay(1) by (simp add: placed_at_def)
  ultimately have "load_image nd os img h l ret exe m = Inr (ret, ?exe, ?m)"
    using os(1) im(1) prot(1) by (simp add: load_image_def Let_def sz_def)
  moreover have "(p_flags ph AND PF_R \<noteq> 0 \<longrightarrow>
         cells ?m (base + of_nat (image_offset first ph + k)) = Some (segment_byte img ph k))
       \<and> writable ?m (base + of_nat (image_offset first ph + k)) = (p_flags ph AND PF_W \<noteq> 0)"
    if ph: "ph \<in> set (first # rest)" and k: "k < unat (p_memsz ph)" for ph k
  proof -
    let ?o = "image_offset first ph + k"
    obtain pg where "pg \<in> set (pages l)" "covers pg (image_offset first ph) ph" using lay(4) ph by blast
    then have p: "prot ?o = page_prot pg" "flags pg = ucast (p_flags ph)"
      using prot(2) k by (auto simp: covers_def)
    have "?o < length im" using lay(4) ph k sz(1) im(2) by fastforce
    note mb = map_block_in [OF this, of base _ _ m]
    have "placed_at first ph \<in> set (placed l)" unfolding lay(1) using ph by auto
    with im(3) k have "im ! ?o = segment_byte img ph k"
      by (auto simp: segment_copied_def placed_at_fields segment_byte_def)
    then show ?thesis
      using mb im(2) sz(2) p page_prot_bits [of pg] hasflag_simps [OF p(2)] by simp
  qed
  ultimately show thesis by (intro that [of ?exe ?m]) auto
qed

lemma elf_loads:
  assumes "fstat os fd = Inr file" "mmap_shared os (of_nat (length file)) = Inr addr"
    and "elf_headers_ok p os file h hs first rest"
    and "relocates_neutrally nd (padded os file) h (map (placed_at first) (first # rest))"
    and "\<forall>n. mmap_anon os n = Inr base" "\<forall>a n pr. mprotect os a n pr = None"
  shows "\<exists>exe' m'. loader_read_elf nd os fd exe m = Inr (of_bool (e_entry h = 0), exe', m')
    \<and> exe_mem exe' = base \<and> entrypoint exe' = ucast (e_entry h - p_vaddr first)
    \<and> (\<forall>ph \<in> set (first # rest). \<forall>k < unat (p_memsz ph).
         (p_flags ph AND PF_R \<noteq> 0 \<longrightarrow> cells m' (base + of_nat (image_offset first ph + k))
            = Some (segment_byte (padded os file) ph k))
         \<and> writable m' (base + of_nat (image_offset first ph + k)) = (p_flags ph AND PF_W \<noteq> 0))"
proof -
  let ?img = "padded os file"
  have e: "page_size os = 2 ^ p" "p < 32" "read_range ?img 0 (length expected_ident) = Inr expected_ident"
    "read_ehdr ?img = Inr h" "e_machine h = EM_RISCV" "unat (e_phentsize h) = sizeof_phdr"
    "unat (e_phnum h) = length hs"
    "\<forall>i < length hs. read_phdr ?img (unat (e_phoff h) + sizeof_phdr * i) = Inr (hs ! i)"
    "\<forall>ph \<in> set hs. p_type ph \<noteq> PT_INTERP" "loadable hs = first # rest"
    "\<exists>ph \<in> set (first # rest). executable ph" "2 ^ p dvd unat (p_vaddr first)" "follow_on p first rest"
    "\<forall>ph \<in> set (first # rest). segment_ok p ph \<and> unat (p_offset ph) + unat (p_filesz ph) \<le> length ?img"
    using assms(3) unfolding elf_headers_ok_def Let_def by blast+
  let ?segs = "map fresh_segment (first # rest)" and ?c = "of_bool (e_entry h = 0) :: u32"
  let ?l = "layout_segments (page_size os) (e_entry h) (entrypoint exe) (first # rest)"
  have scan: "scan_phdrs ?img (unat (e_phoff h)) (unat (e_phnum h)) [] False = Inr (Some (?segs, True))"
    using scan_finds [OF e(8,9), of "[]" False] e(7,10,11) by simp
  have c: "(if e_entry h = 0 then as_bool ENOEXEC else 0) = ?c" by (simp add: as_bool_def ENOEXEC_def)
  have sg: "map phdr ?segs = first # rest" "phdr (hd ?segs) = first"
    by (simp_all add: fresh_segment_def comp_def)
  have "segment_ok p first" using e(14) by simp
  then have "(ucast (p_align first) :: u64) = page_size os"
    using e(1,2) by (intro unat_eqI) (simp add: segment_ok_def unat_ucast_32_64 unat_2_power)
  then have "load_segments nd os ?img h ?segs ?c exe m
      = load_image nd os ?img h ?l ?c (exe\<lparr>entrypoint := lay_entry ?l\<rparr>) m"
    by (simp only: load_segments_def sg) (simp add: Let_def)
  moreover have "loader_read_elf nd os fd exe m = load_segments nd os ?img h ?segs ?c exe m"
    using assms(1,2) e(3-6) scan c by (simp add: loader_read_elf_def mmap_file_def Let_def)
  moreover obtain exe' m' where "load_image nd os ?img h ?l ?c (exe\<lparr>entrypoint := lay_entry ?l\<rparr>) m = Inr (?c, exe', m')"
    "exe_mem exe' = base" "entrypoint exe' = ucast (e_entry h - p_vaddr first)"
    "\<forall>ph \<in> set (first # rest). \<forall>k < unat (p_memsz ph).
       (p_flags ph AND PF_R \<noteq> 0 \<longrightarrow>
         cells m' (base + of_nat (image_offset first ph + k)) = Some (segment_byte ?img ph k))
       \<and> writable m' (base + of_nat (image_offset first ph + k)) = (p_flags ph AND PF_W \<noteq> 0)"
    using load_image_loads [OF e(1,2,12,14,13) assms(4) _ assms(6), of ?l base "e_entry h" "entrypoint exe" ?c
      "exe\<lparr>entrypoint := lay_entry ?l\<rparr>" m] assms(5) e(1) by metis
  ultimately show ?thesis by auto
qed

text \<open>
  Property C16. The ELF loader rebuilds the memory image: for an RV32 executable whose
  loadable segments follow each other page by page, with page alignment and without
  relocations, it maps every segment at its distance from the first one, filled from the file
  and zeroed up to its memory size, readable and writable as its flags say, with the entry
  point at its distance too.  The code it returns is 0, unless the entry point is 0: then it
  is an error although the image is mapped.
\<close>

theorem elf_image_loads:
  assumes "fstat os fd = Inr file" "mmap_shared os (of_nat (length file)) = Inr addr"
    and "elf_ok p os file h hs first rest"
    and "\<forall>n. mmap_anon os n = Inr base" "\<forall>a n pr. mprotect os a n pr = None"
  shows "\<exists>exe' m'. loader_read_elf nd os fd exe m = Inr (of_bool (e_entry h = 0), exe', m')
    \<and> exe_mem exe' = base \<and> entrypoint exe' = ucast (e_entry h - p_vaddr first)
    \<and> (\<forall>ph \<in> set (first # rest). \<forall>k < unat (p_memsz ph).
         (p_flags ph AND PF_R \<noteq> 0 \<longrightarrow> cells m' (base + of_nat (image_offset first ph + k))
            = Some (segment_byte (padded os file) ph k))
         \<and> writable m' (base + of_nat (image_offset first ph + k)) = (p_flags ph AND PF_W \<noteq> 0))"
  using elf_loads [OF assms(1,2) _ _ assms(4,5)] assms(3) relocate_nothing
  unfolding elf_ok_def relocates_neutrally_def by blast

text \<open>
  A smallest executable: one segment of four bytes of code (\<open>addi a0, zero, 5\<close>) and four
  of zeros, at address \<open>0x1000\<close>.
\<close>

definition demo_elf :: "u8 list" where
  "demo_elf =
    [127, 69, 76, 70, 1, 1, 1, 0, 0, 0, 0, 0, 0, 0, 0, 0, 2, 0, 243, 0, 1, 0, 0, 0, 0,
     16, 0, 0, 52, 0, 0, 0, 0, 0, 0, 0, 0, 0, 0, 0, 52, 0, 32, 0, 1, 0, 40, 0, 0, 0, 0,
     0, 1, 0, 0, 0, 84, 0, 0, 0, 0, 16, 0, 0, 0, 16, 0, 0, 4, 0, 0, 0, 8, 0, 0, 0, 5, 0,
     0, 0, 0, 16, 0, 0, 19, 5, 80, 0]"

definition demo_ehdr :: elf32_ehdr where
  "demo_ehdr = \<lparr>e_machine = 243, e_entry = 0x1000, e_phoff = 52, e_shoff = 0, e_phentsize = 32,
     e_phnum = 1, e_shnum = 0, e_shstrndx = 0\<rparr>"

definition demo_phdr :: elf32_phdr where
  "demo_phdr = \<lparr>p_type = 1, p_offset = 84, p_vaddr = 0x1000, p_paddr = 0x1000, p_filesz = 4, p_memsz = 8,
     p_flags = 5, p_align = 0x1000\<rparr>"

lemma read_range_append:
  "off + n \<le> length xs \<Longrightarrow> read_range (xs @ ys) off n = Inr (take n (drop off xs))"
  by (simp add: read_range_def)

lemma demo_elf_padded: "padded (demo_os demo_elf) demo_elf = demo_elf @ replicate 4008 0"
  "length demo_elf = 88"
  by (simp_all add: padded_def pages_len_def demo_os_def demo_elf_def)

lemma demo_elf_reads:
  "read_range (demo_elf @ zs) 0 9 = Inr expected_ident"
  "read_ehdr (demo_elf @ zs) = Inr demo_ehdr"
  "read_phdr (demo_elf @ zs) 52 = Inr demo_phdr"
  by (simp_all add: read_ehdr_def read_phdr_def rd16_def rd32_def read_range_append demo_elf_padded(2),
    simp_all add: demo_elf_def demo_ehdr_def demo_phdr_def of_le16_def of_le32_def expected_ident_def)

lemma demo_elf_ok: "elf_ok 12 (demo_os demo_elf) demo_elf demo_ehdr [demo_phdr] demo_phdr []"
proof -
  have "length expected_ident = 9" by (simp add: expected_ident_def)
  moreover have "loadable [demo_phdr] = [demo_phdr]" "executable demo_phdr" "segment_ok 12 demo_phdr"
    by (simp_all add: loadable_def executable_def segment_ok_def demo_phdr_def PT_LOAD_def PF_X_def PF_R_def)
  moreover have "no_relocations img demo_ehdr" for img by (simp add: no_relocations_def demo_ehdr_def)
  ultimately show ?thesis
    unfolding elf_ok_def elf_headers_ok_def demo_elf_padded(1) using demo_elf_reads [of "replicate 4008 0"]
    by (simp add: demo_os_def demo_elf_padded(2)) (simp add: demo_ehdr_def demo_phdr_def EM_RISCV_def PT_INTERP_def sizeof_phdr_def)
qed

theorem elf_image_loads_witness:
  "\<exists>exe' m'. loader_read_elf False (demo_os demo_elf) 3 no_exe no_mem = Inr (0, exe', m')
    \<and> exe_mem exe' = 0x50000000 \<and> entrypoint exe' = 0
    \<and> cells m' 0x50000000 = Some 0x13 \<and> cells m' 0x50000004 = Some 0 \<and> \<not> writable m' 0x50000000"
proof -
  have os: "fstat (demo_os demo_elf) 3 = Inr demo_elf"
    "mmap_shared (demo_os demo_elf) (of_nat (length demo_elf)) = Inr 0x40000000"
    "\<forall>n. mmap_anon (demo_os demo_elf) n = Inr 0x50000000"
    "\<forall>a n pr. mprotect (demo_os demo_elf) a n pr = None" by (simp_all add: demo_os_def)
  from elf_image_loads [OF os(1,2) demo_elf_ok os(3,4), of False no_exe no_mem] obtain exe' m'
    where r: "loader_read_elf False (demo_os demo_elf) 3 no_exe no_mem = Inr (of_bool (e_entry demo_ehdr = 0), exe', m')"
      "exe_mem exe' = 0x50000000" "entrypoint exe' = ucast (e_entry demo_ehdr - p_vaddr demo_phdr)"
      "\<forall>ph \<in> set [demo_phdr]. \<forall>k < unat (p_memsz ph).
         (p_flags ph AND PF_R \<noteq> 0 \<longrightarrow> cells m' (0x50000000 + of_nat (image_offset demo_phdr ph + k))
            = Some (segment_byte (padded (demo_os demo_elf) demo_elf) ph k))
         \<and> writable m' (0x50000000 + of_nat (image_offset demo_phdr ph + k)) = (p_flags ph AND PF_W \<noteq> 0)"
    by blast
  have b: "segment_byte (padded (demo_os demo_elf) demo_elf) demo_phdr 0 = 0x13"
    "segment_byte (padded (demo_os demo_elf) demo_elf) demo_phdr 4 = 0"
    unfolding demo_elf_padded(1) by (simp_all add: segment_byte_def demo_phdr_def demo_elf_def)
  have m: "unat (p_memsz demo_phdr) = 8" "p_flags demo_phdr AND PF_R \<noteq> 0" "p_flags demo_phdr AND PF_W = 0"
    "image_offset demo_phdr demo_phdr = 0" "e_entry demo_ehdr = 0x1000" "p_vaddr demo_phdr = 0x1000"
    by (simp_all add: demo_phdr_def demo_ehdr_def PF_R_def PF_W_def image_offset_def)
  show ?thesis
    using r(1-3) r(4) [rule_format, of demo_phdr 0] r(4) [rule_format, of demo_phdr 4] b m by simp
qed

end
