(* ===== verification/Bf_Loads.thy ===== *)
theory Bf_Loads
  imports Bf_Image Loader_Elf
begin

text \<open>
  The file that the compiler writes, as the loader reads it: every header is read back, the
  two relocations leave the code as it is (the data comes first in the image, so the address
  they add is 0), and the image that is mapped has the tape at its start and the code on the
  first page after it.
\<close>

section \<open>Reading chunks back\<close>

lemma of_le16_le16 [simp]: "of_le16 (ucast w) (ucast (drop_bit 8 w)) = w"
proof (rule bit_word_eqI)
  fix k assume "k < LENGTH(16)"
  then show "bit (of_le16 (ucast w) (ucast (drop_bit 8 w))) k = bit w k"
    by (cases "k < 8") (auto simp: of_le16_def bit_simps)
qed

lemma read_chunk:
  assumes "i < length cs" "k + n \<le> length (cs ! i)" "off = length (concat (take i cs)) + k"
  shows "read_range (concat cs @ zs) off n = Inr (take n (drop k (cs ! i)))"
proof -
  have "cs = take i cs @ cs ! i # drop (Suc i) cs" using assms(1) by (rule id_take_nth_drop)
  then have cs: "concat cs = concat (take i cs) @ cs ! i @ concat (drop (Suc i) cs)"
    by (metis concat.simps(2) concat_append)
  have "off + n \<le> length (concat cs @ zs)" unfolding cs using assms(2,3) by simp
  moreover have "take n (drop off (concat cs @ zs)) = take n (drop k (cs ! i))"
    unfolding cs using assms(2,3) by simp
  ultimately show ?thesis by (simp add: read_range_def)
qed

lemma rd32_le32s:
  assumes "i < length cs" "cs ! i = le32s ws @ ys" "j < length ws"
    "off = length (concat (take i cs)) + 4 * j"
  shows "rd32 (concat cs @ zs) off = Inr (ws ! j)"
proof -
  have "take 4 (drop (4 * j) (cs ! i)) = le32 (ws ! j)"
    using assms(2,3) by (simp add: drop_le32s Cons_nth_drop_Suc [symmetric])
  then show ?thesis
    using read_chunk [OF assms(1) _ assms(4), of 4 zs] assms(2,3) by (simp add: rd32_def of_le32_nth [simplified])
qed

lemma read_phdr_chunk:
  assumes "i < length cs" "cs ! i = le32s (phdr_words h)" "off = length (concat (take i cs))"
  shows "read_phdr (concat cs @ zs) off = Inr h"
proof -
  have "rd32 (concat cs @ zs) (off + 4 * j) = Inr (phdr_words h ! j)" if "j < 8" for j
    using rd32_le32s [OF assms(1), of "phdr_words h" "[]" j] assms(2,3) that by simp
  from this [of 0] this [of 1] this [of 2] this [of 3] this [of 4] this [of 5] this [of 6] this [of 7]
  show ?thesis by (simp add: read_phdr_def phdr_words_def)
qed

lemma section_chunk:
  assumes "i < length cs" "cs ! i = le32s (shdr_words h)" "off = length (concat (take i cs))"
  shows "sh_name (concat cs @ zs) off = Inr (shdr_name h)"
    "sh_type (concat cs @ zs) off = Inr (shdr_type h)"
    "sh_addr (concat cs @ zs) off = Inr (shdr_addr h)"
    "sh_offset (concat cs @ zs) off = Inr (shdr_offset h)"
    "sh_size (concat cs @ zs) off = Inr (shdr_size h)"
    "sh_link (concat cs @ zs) off = Inr (shdr_link h)"
    "sh_info (concat cs @ zs) off = Inr (shdr_info h)"
    "sh_entsize (concat cs @ zs) off = Inr (shdr_entsize h)"
proof -
  have "rd32 (concat cs @ zs) (off + 4 * j) = Inr (shdr_words h ! j)" if "j < 10" for j
    using rd32_le32s [OF assms(1), of "shdr_words h" "[]" j] assms(2,3) that by simp
  from this [of 0] this [of 1] this [of 3] this [of 4] this [of 5] this [of 6] this [of 7] this [of 9]
  show "sh_name (concat cs @ zs) off = Inr (shdr_name h)"
    "sh_type (concat cs @ zs) off = Inr (shdr_type h)"
    "sh_addr (concat cs @ zs) off = Inr (shdr_addr h)"
    "sh_offset (concat cs @ zs) off = Inr (shdr_offset h)"
    "sh_size (concat cs @ zs) off = Inr (shdr_size h)"
    "sh_link (concat cs @ zs) off = Inr (shdr_link h)"
    "sh_info (concat cs @ zs) off = Inr (shdr_info h)"
    "sh_entsize (concat cs @ zs) off = Inr (shdr_entsize h)"
    by (simp_all add: shdr_words_def sh_name_def sh_type_def sh_addr_def sh_offset_def sh_size_def
        sh_link_def sh_info_def sh_entsize_def)
qed

section \<open>The headers of a compiled program\<close>

definition bf_ehdr :: "elf_locals \<Rightarrow> elf32_ehdr" where
  "bf_ehdr L = \<lparr>e_machine = EM_RISCV, e_entry = insns_begin_virt L, e_phoff = 52, e_shoff = 148,
     e_phentsize = 32, e_phnum = 3, e_shnum = 8, e_shstrndx = 6\<rparr>"

definition bf_phdrs :: "elf_locals \<Rightarrow> elf32_phdr list" where
  "bf_phdrs L = [data_segment L, text_segment L, attributes_segment (468 + insns_len L) 0]"

definition bf_shdrs :: "elf_locals \<Rightarrow> elf32_shdr list" where
  "bf_shdrs L = (let e = 468 + insns_len L in
     [zero_shdr, data_section L 7, text_section L 1, rela_section e 31, symtab_section (e + 24) 32 42,
      strings_section (e + 56) 19 50, strings_section (e + 75) 68 58, attributes_section e 0 13])"

lemma elf_chunks_headed: "headed (elf_chunks L text)" "length (elf_chunks L text) = 18"
  by (simp_all add: headed_def header_lengths_def elf_chunks_def Let_def numeral_eq_Suc)

lemma elf_chunks_nth:
  "j < 3 \<Longrightarrow> elf_chunks L text ! (1 + j) = le32s (phdr_words (bf_phdrs L ! j))"
  "j < 8 \<Longrightarrow> elf_chunks L text ! (4 + j) = le32s (shdr_words (bf_shdrs L ! j))"
  by (auto simp: elf_chunks_def bf_phdrs_def bf_shdrs_def Let_def less_Suc_eq numeral_eq_Suc)

lemma replicate_7: "replicate 7 x = [x, x, x, x, x, x, x]"
  by (simp add: numeral_eq_Suc)

lemma bf_ehdr_read:
  assumes "phoff L = 52" "shoff L = 148"
  shows "read_range (concat (elf_chunks L text) @ zs) 0 9 = Inr expected_ident"
    "read_ehdr (concat (elf_chunks L text) @ zs) = Inr (bf_ehdr L)"
proof -
  let ?img = "concat (elf_chunks L text) @ zs"
  have c: "elf_chunks L text ! 0 = ehdr_bytes L" by (simp add: elf_chunks_def Let_def)
  have r: "read_range ?img k n = Inr (take n (drop k (ehdr_bytes L)))" if "k + n \<le> 52" for k n
    using read_chunk [of 0 "elf_chunks L text" k n k zs] elf_chunks_headed(2) that by (simp add: c)
  show "read_range ?img 0 9 = Inr expected_ident"
    using r [of 0 9] by (simp add: ehdr_bytes_def expected_ident_def)
  show "read_ehdr ?img = Inr (bf_ehdr L)"
    by (simp add: read_ehdr_def rd16_def rd32_def r, simp add: ehdr_bytes_def replicate_7 le32_def le16_def assms
        bf_ehdr_def segment_count_def section_count_def shstrtab_shdr_def, simp add: of_le32_def of_le16_def)
qed

lemma bf_phdr_read: "i < 3 \<Longrightarrow> read_phdr (concat (elf_chunks L text) @ zs) (52 + sizeof_phdr * i) = Inr (bf_phdrs L ! i)"
proof -
  assume i: "i < 3"
  then have "1 + i < 12" by simp
  note h = headedD [OF elf_chunks_headed(1) this, of L "text"] segment_slot [OF i]
  show ?thesis
    using h elf_chunks_nth(1) [OF i, of L "text"]
    by (intro read_phdr_chunk [of "1 + i"]) (simp_all add: sizeof_phdr_def)
qed

lemma bf_shdr_start: "i < 8 \<Longrightarrow> 148 + sizeof_shdr * i = length (concat (take (4 + i) (elf_chunks L text)))"
proof -
  assume i: "i < 8"
  then have "4 + i < 12" by simp
  from headedD(3) [OF elf_chunks_headed(1) this, of L "text"] section_slot [OF i]
  show ?thesis by (simp add: sizeof_shdr_def)
qed

lemmas bf_shdr_read = section_chunk [OF _ elf_chunks_nth(2) bf_shdr_start]

section \<open>Relocating\<close>

lemma write_same:
  assumes "off + length xs \<le> length im" "take (length xs) (drop off im) = xs"
  shows "write_range im off xs = Inr im"
proof -
  have "drop off im = xs @ drop (off + length xs) im"
    using append_take_drop_id [of "length xs" "drop off im"] assms(2) by (simp add: add.commute)
  then have "take off im @ xs @ drop (off + length xs) im = im" by (metis append_take_drop_id)
  with assms(1) show ?thesis by (simp add: write_range_def)
qed

text \<open>Patching with the value 0 changes nothing.\<close>

lemma patch_zero: "patch_hi20 w 0 = w"
  by (simp add: patch_hi20_def)

lemma patch_nothing:
  assumes "at + 4 \<le> length im"
  obtains w where "rd32 im at = Inr w" "write_range im at (le32 (patch_hi20 w 0)) = Inr im"
proof -
  let ?bs = "take 4 (drop at im)"
  let ?w = "of_le32 (?bs ! 0) (?bs ! 1) (?bs ! 2) (?bs ! 3)"
  have l: "length ?bs = 4" using assms by simp
  then have "?bs = [?bs ! 0, ?bs ! 1, ?bs ! 2, ?bs ! 3]"
    by (intro nth_equalityI) (auto simp: less_Suc_eq numeral_eq_Suc)
  then have "le32 (patch_hi20 ?w 0) = ?bs" by (simp add: patch_zero)
  moreover have "rd32 im at = Inr ?w" using assms by (simp add: rd32_def read_range_def)
  ultimately show thesis using that assms write_same [of at ?bs im] l by simp
qed

text \<open>The segments of a compiled program, placed, and the addresses found in them.\<close>

definition bf_placed :: "elf_locals \<Rightarrow> loadable_segment list" where
  "bf_placed L = map (placed_at (data_segment L)) [data_segment L, text_segment L]"

definition bf_locals_ok :: "elf_locals \<Rightarrow> u8 list \<Rightarrow> bool" where
  "bf_locals_ok L text \<longleftrightarrow> (\<exists>page. L = emitted_locals page (of_nat (length text)))
     \<and> 8 \<le> length text \<and> length text + 611 \<le> 2 ^ 31
     \<and> 0x10C00 \<le> unat (insns_begin_virt L) \<and> unat (insns_begin_virt L) + length text < 2 ^ 32"

lemma bf_locals:
  assumes "bf_locals_ok L text"
  shows "insns_len L = of_nat (length text)" "unat (insns_len L) = length text" "data_begin_virt L = 0x10000"
    "phoff L = 52" "shoff L = 148" "insns_begin_elf L = 468"
  using assms unat_u32_of_nat [of "length text"] by (auto simp: bf_locals_ok_def emitted_locals_def)

lemma bf_find:
  assumes "bf_locals_ok L text"
  shows "find_offset_for_section nd 0x10000 (bf_placed L) = Inr (Some 0)"
    "find_offset_for_section nd (insns_begin_virt L) (bf_placed L) = Inr (Some (insns_begin_virt L - 0x10000))"
    "unat (insns_begin_virt L - 0x10000) = image_offset (data_segment L) (text_segment L)"
proof -
  let ?V = "insns_begin_virt L"
  have V: "0x10C00 \<le> unat ?V" "unat ?V + length text < 2 ^ 32" "0 < length text"
    using assms by (auto simp: bf_locals_ok_def)
  note L = bf_locals [OF assms]
  have data: "p_vaddr (data_segment L) = 0x10000" "p_memsz (data_segment L) = 0xC00"
    and tx: "p_vaddr (text_segment L) = ?V" "p_memsz (text_segment L) = insns_len L"
    using L by (simp_all add: data_segment_def text_segment_def)
  have ge: "0x10C00 \<le> ?V" using V(1) by (simp add: word_le_nat_alt)
  then have "0x10000 \<le> ?V" by (rule order_trans [rotated]) simp
  then show o: "unat (?V - 0x10000) = image_offset (data_segment L) (text_segment L)"
    by (simp add: image_offset_def data tx unat_sub)
  have "unat ?V + unat (insns_len L) < 2 ^ LENGTH(32)" using V(2) L(2) by simp
  from iffD1 [OF unat_add_lem this] have "unat (?V + insns_len L) = unat ?V + length text"
    unfolding L(2) .
  then have lt: "?V < ?V + insns_len L" using V(3) by (simp add: word_less_nat_alt)
  show "find_offset_for_section nd 0x10000 (bf_placed L) = Inr (Some 0)"
    by (simp add: bf_placed_def placed_at_def data image_offset_def)
  have m: "mem_offset (placed_at (data_segment L) (text_segment L)) = ucast (?V - 0x10000)"
    unfolding placed_at_def using o by (metis loadable_segment.select_convs(1) of_nat_unat)
  have "unat (ucast (?V - 0x10000) :: u64) < 0xffffffff"
    using o V(2) unat_ucast_u64 [of "?V - 0x10000"] by (simp add: image_offset_def data tx)
  then have "(ucast (?V - 0x10000) :: u64) < 0xffffffff" by (simp add: word_less_nat_alt)
  moreover have "ucast (ucast (?V - 0x10000) :: u64) = ?V - 0x10000"
    by (rule bit_word_eqI) (auto simp: bit_simps)
  moreover have "\<not> ?V < 0x10C00" using ge by simp
  ultimately show "find_offset_for_section nd ?V (bf_placed L) = Inr (Some (?V - 0x10000))"
    using lt m by (simp add: bf_placed_def placed_at_fields data tx Let_def)
qed

text \<open>One of the two relocations: its table entry \<open>r\<close> at offset \<open>rela\<close> of the file.\<close>

lemma bf_relocate:
  assumes ok: "bf_locals_ok L text" and img: "img = concat (elf_chunks L text) @ zs"
    and r: "rd32 img rela = Inr (r_offset r)" "rd32 img (rela + 4) = Inr (r_info r)"
      "rd32 img (rela + 8) = Inr (r_addend r)" "r_info r = ELF32_R_INFO 0 R_RISCV_HI20" "r_addend r = 0"
    and base: "unat base + unat (r_offset r) + 4 \<le> length im"
  shows "relocate nd img 148 (bf_placed L) (492 + length text) base rela im = Inr (Relocated im)"
proof -
  note L = bf_locals [OF ok]
  let ?cs = "elf_chunks L text"
  have s: "length (concat (take 15 ?cs)) = 492 + length text" "?cs ! 15 = sym_bytes (data_sym 0) @ sym_bytes (entry_sym L 9)"
    by (simp_all add: elf_chunks_def Let_def)
  have i: "drop_bit 8 (r_info r) = 0" "r_info r AND 0xff = R_RISCV_HI20"
    using r(4) by (simp_all add: ELF32_R_INFO_def R_RISCV_HI20_def)
  have "rd16 img (492 + length text + 14) = Inr (ucast data_shdr)"
    using read_chunk [of 15 ?cs 14 2 "492 + length text + 14" zs] elf_chunks_headed(2) s
    by (simp add: img rd16_def, simp add: sym_bytes_def data_sym_def le16_def le32_def)
  moreover have "sh_addr img (148 + sizeof_shdr * unat (ucast data_shdr :: u16)) = Inr 0x10000"
    using bf_shdr_read(3) [of 1 L "text" zs] elf_chunks_headed(2) L(3)
    by (simp add: img bf_shdrs_def data_section_def data_shdr_def Let_def)
  moreover have "rd32 img (492 + length text + 4) = Inr 0"
    using rd32_le32s [of 15 ?cs "[0, 0, 3 * 1024]" _ 1 "492 + length text + 4" zs] elf_chunks_headed(2) s
    by (simp add: img sym_bytes_def data_sym_def)
  moreover obtain w where "rd32 im (unat base + unat (r_offset r)) = Inr w"
      "write_range im (unat base + unat (r_offset r)) (le32 (patch_hi20 w 0)) = Inr im"
    using patch_nothing base by blast
  ultimately show ?thesis
    using i r bf_find(1) [OF ok] by (simp add: relocate_def Let_def)
qed

lemma bf_relocate_section:
  assumes ok: "bf_locals_ok L text" and img: "img = concat (elf_chunks L text) @ zs"
    and im: "image_offset (data_segment L) (text_segment L) + length text \<le> length im"
  shows "relocate_section nd img 148 (bf_placed L) (148 + sizeof_shdr * 3) im = Inr (Relocated im)"
proof -
  note L = bf_locals [OF ok]
  let ?cs = "elf_chunks L text" and ?base = "insns_begin_virt L - 0x10000"
  have n: "unat (468 + insns_len L) = 468 + length text" "unat (492 + insns_len L) = 492 + length text"
    using ok unat_u32_of_nat [of "468 + length text"] unat_u32_of_nat [of "492 + length text"]
    by (simp_all add: L(1) bf_locals_ok_def)
  have rela: "sh_link img (148 + sizeof_shdr * 3) = Inr symtab_shdr"
    "sh_entsize img (148 + sizeof_shdr * 3) = Inr 12" "sh_size img (148 + sizeof_shdr * 3) = Inr 24"
    "sh_offset img (148 + sizeof_shdr * 3) = Inr (468 + insns_len L)" "sh_info img (148 + sizeof_shdr * 3) = Inr text_shdr"
    using bf_shdr_read [of 3 L "text" zs] elf_chunks_headed(2)
    by (simp_all add: img bf_shdrs_def rela_section_def Let_def)
  have "sh_offset img (148 + sizeof_shdr * 4) = Inr (492 + insns_len L)" "sh_link img (148 + sizeof_shdr * 4) = Inr strtab_shdr"
    using bf_shdr_read [of 4 L "text" zs] elf_chunks_headed(2)
    by (simp_all add: img bf_shdrs_def symtab_section_def Let_def)
  moreover obtain names where "sh_offset img (148 + sizeof_shdr * 5) = Inr names"
    using bf_shdr_read(4) [of 5 L "text" zs] elf_chunks_headed(2) by (simp add: img)
  moreover have "sh_addr img (148 + sizeof_shdr * 2) = Inr (insns_begin_virt L)"
    using bf_shdr_read(3) [of 2 L "text" zs] elf_chunks_headed(2)
    by (simp add: img bf_shdrs_def text_section_def Let_def)
  moreover have "relocate_all nd img 148 (bf_placed L) (492 + length text) ?base (468 + length text) 2 im
      = Inr (Relocated im)"
  proof -
    have c: "length (concat (take 13 ?cs)) = 468 + length text" "length (concat (take 14 ?cs)) = 480 + length text"
      "?cs ! 13 = le32s (rela_words lui_rela)" "?cs ! 14 = le32s (rela_words addi_rela)"
      by (simp_all add: elf_chunks_def Let_def)
    have rd: "j < 3 \<Longrightarrow> rd32 img (468 + length text + 4 * j) = Inr (rela_words lui_rela ! j)"
      "j < 3 \<Longrightarrow> rd32 img (480 + length text + 4 * j) = Inr (rela_words addi_rela ! j)" for j
      using rd32_le32s [of 13 ?cs "rela_words lui_rela" "[]" j _ zs] rd32_le32s [of 14 ?cs "rela_words addi_rela" "[]" j _ zs]
        elf_chunks_headed(2) c by (simp_all add: img)
    have b: "unat ?base + 8 \<le> length im"
      using im bf_find(3) [OF ok] ok by (simp add: bf_locals_ok_def)
    have "relocate nd img 148 (bf_placed L) (492 + length text) ?base (468 + length text) im = Inr (Relocated im)"
      by (rule bf_relocate [OF ok img, where r = lui_rela])
        (use rd(1) [of 0] rd(1) [of 1] rd(1) [of 2] b in \<open>simp_all add: rela_words_def lui_rela_def\<close>)
    moreover have "relocate nd img 148 (bf_placed L) (492 + length text) ?base (480 + length text) im = Inr (Relocated im)"
      by (rule bf_relocate [OF ok img, where r = addi_rela])
        (use rd(2) [of 0] rd(2) [of 1] rd(2) [of 2] b in \<open>simp_all add: rela_words_def addi_rela_def\<close>)
    ultimately show ?thesis by (simp add: numeral_2_eq_2 sizeof_rela_def)
  qed
  ultimately show ?thesis
    using rela bf_find(2) [OF ok] n by (simp add: relocate_section_def Let_def sizeof_rela_def)
qed

lemma bf_relocations:
  assumes ok: "bf_locals_ok L text" and img: "img = concat (elf_chunks L text) @ zs"
  shows "relocates_neutrally nd img (bf_ehdr L) (bf_placed L)"
  unfolding relocates_neutrally_def
proof (intro allI impI)
  fix im :: "u8 list"
  assume "\<forall>s \<in> set (bf_placed L). unat (mem_offset s) + unat (p_memsz (phdr s)) \<le> length im"
  then have im: "image_offset (data_segment L) (text_segment L) + length text \<le> length im"
    using bf_locals [OF ok] by (simp add: bf_placed_def placed_at_fields text_segment_def)
  have sec: "(\<exists>nm. sh_name img (148 + sizeof_shdr * i) = Inr nm)
      \<and> sh_type img (148 + sizeof_shdr * i) = Inr (shdr_type (bf_shdrs L ! i))" if "i < 8" for i
    using bf_shdr_read(1,2) [of i L "text" zs] that elf_chunks_headed(2) by (simp add: img)
  have ty: "shdr_type (bf_shdrs L ! i) = SHT_RELA \<longleftrightarrow> i = 3" if "i < 8" for i
  proof -
    from that have "i \<in> {0, 1, 2, 3, 4, 5, 6, 7}" by auto
    then show ?thesis
      by (elim insertE emptyE) (simp_all add: bf_shdrs_def zero_shdr_def data_section_def text_section_def
          rela_section_def symtab_section_def strings_section_def attributes_section_def SHT_RELA_def
          SHT_NOBITS_def SHT_PROGBITS_def SHT_SYMTAB_def SHT_STRTAB_def SHT_RISCV_ATTRIBUTES_def Let_def)
  qed
  have "relocate_sections nd img 148 True (bf_placed L) (148 + sizeof_shdr * i) k im = Inr (Relocated im)"
    if "i + k = 8" for i k
    using that
  proof (induction k arbitrary: i)
    case (Suc k)
    then have i: "i < 8" by simp
    have "relocate_sections nd img 148 True (bf_placed L) (148 + sizeof_shdr * i + sizeof_shdr) k im = Inr (Relocated im)"
      using Suc.IH [of "Suc i"] Suc.prems by (simp add: ac_simps)
    then show ?case
      using sec [OF i] ty [OF i] bf_relocate_section [OF ok img im, of nd] by auto
  qed simp
  from this [of 0 8] obtain x where "relocate_sections nd img 148 True (bf_placed L) 148 8 im = Inr (Relocated im)"
    "sh_offset img (148 + sizeof_shdr * 6) = Inr x"
    using bf_shdr_read(4) [of 6 L "text" zs] elf_chunks_headed(2) by (simp add: img)
  then show "relocate_image nd img (bf_ehdr L) (bf_placed L) im = Inr (Relocated im)"
    by (simp add: relocate_image_def bf_ehdr_def Let_def)
qed

section \<open>Loading\<close>

lemma code_address_round:
  assumes "p \<le> 16"
  shows "unat (code_address 0x10000 (2 ^ p)) = round_up (2 ^ p) 0x10C00"
    "0x10C00 \<le> round_up (2 ^ p) 0x10C00" "round_up (2 ^ p) 0x10C00 < 0x20C00"
proof -
  have p: "(2 :: nat) ^ p \<le> 2 ^ 16" using assms by (intro power_increasing) simp_all
  have "code_address 0x10000 (2 ^ p) = align_upwards 0x10C00 (2 ^ p)"
    by (simp add: code_address_def align_upwards_def Let_def)
  then show "unat (code_address 0x10000 (2 ^ p)) = round_up (2 ^ p) 0x10C00"
    using align_upwards_eq [where k = p and val = "0x10C00"] assms p by (simp add: round_up_def)
  show "0x10C00 \<le> round_up (2 ^ p) 0x10C00" "round_up (2 ^ p) 0x10C00 < 0x20C00"
    using round_up_least(2,4) [where page = "2 ^ p" and n = "0x10C00"] p by simp_all
qed

lemma emitted_ok:
  assumes "p \<le> 16" "8 \<le> length text" "length text + 611 \<le> 2 ^ 31"
  shows "bf_locals_ok (emitted_locals (2 ^ p) (of_nat (length text))) text"
  using assms code_address_round [OF assms(1)] unfolding bf_locals_ok_def
  by (intro conjI exI [of _ "2 ^ p"]) (simp_all add: emitted_locals_def)

lemma emitted_segments:
  fixes "text" :: "u8 list"
  assumes "p \<le> 16" "length text + 611 \<le> 2 ^ 31" and L: "L = emitted_locals (2 ^ p) (of_nat (length text))"
  shows "segment_ok p (data_segment L)" "segment_ok p (text_segment L)"
    "follow_on p (data_segment L) [text_segment L]" "2 ^ p dvd unat (p_vaddr (data_segment L))"
    "image_offset (data_segment L) (text_segment L) = round_up (2 ^ p) 0xC00"
    "unat (p_offset (text_segment L)) = 468" "unat (p_filesz (text_segment L)) = length text"
    "unat (p_offset (data_segment L)) = 468 + length text" "p_filesz (data_segment L) = 0"
proof -
  note V = code_address_round [OF assms(1)]
  have n: "unat (of_nat (length text) :: u32) = length text" using assms(2) by (intro unat_u32_of_nat) simp
  have p: "(2 :: nat) ^ p \<le> 2 ^ 16" using assms(1) by (intro power_increasing) simp_all
  have d: "(2 :: nat) ^ p dvd 2 ^ 16" using assms(1) by (rule le_imp_power_dvd)
  have flds: "p_vaddr (data_segment L) = 0x10000" "p_memsz (data_segment L) = 0xC00" "p_align (data_segment L) = 2 ^ p"
    "p_vaddr (text_segment L) = code_address 0x10000 (2 ^ p)" "p_memsz (text_segment L) = of_nat (length text)"
    "p_align (text_segment L) = 2 ^ p" "p_filesz (text_segment L) = of_nat (length text)"
    by (simp_all add: L data_segment_def text_segment_def emitted_locals_def)
  show "p_filesz (data_segment L) = 0" by (simp add: data_segment_def)
  show "segment_ok p (data_segment L)" using p by (simp add: segment_ok_def flds) (simp add: data_segment_def)
  show "segment_ok p (text_segment L)" using p V n assms(2) by (simp add: segment_ok_def flds)
  show "follow_on p (data_segment L) [text_segment L]" using V by (simp add: flds)
  show "2 ^ p dvd unat (p_vaddr (data_segment L))" using d by (simp add: flds)
  have "round_up (2 ^ p) (0x10000 + 0xC00) = 0x10000 + round_up (2 ^ p) 0xC00"
    using d by (intro round_up_add) simp_all
  then show "image_offset (data_segment L) (text_segment L) = round_up (2 ^ p) 0xC00"
    using V(1) by (simp add: image_offset_def flds)
  have "unat (468 + of_nat (length text) :: u32) = 468 + length text"
    using assms(2) unat_u32_of_nat [of "468 + length text"] by simp
  then show "unat (p_offset (data_segment L)) = 468 + length text"
    by (simp add: L data_segment_def emitted_locals_def)
  show "unat (p_filesz (text_segment L)) = length text" using n by (simp add: flds)
  show "unat (p_offset (text_segment L)) = 468" by (simp add: L text_segment_def emitted_locals_def)
qed

lemma bf_elf_loads:
  assumes p: "page_size os = 2 ^ p" "p \<le> 16" and t: "8 \<le> length text" "length text + 611 \<le> 2 ^ 31"
    and f: "file = concat (elf_chunks (emitted_locals (2 ^ p) (of_nat (length text))) text)"
    and os: "fstat os fd = Inr file" "mmap_shared os (of_nat (length file)) = Inr addr"
      "\<forall>n. mmap_anon os n = Inr base" "\<forall>a n pr. mprotect os a n pr = None"
    and al: "al = round_up (2 ^ p) 0xC00"
  obtains exe' m' where "loader_read_elf nd os fd exe m = Inr (0, exe', m')" "exe_mem exe' = base"
    "entrypoint exe' = of_nat al"
    "\<forall>k < 0xC00. cells m' (base + of_nat k) = Some 0 \<and> writable m' (base + of_nat k)"
    "\<forall>k < length text. cells m' (base + of_nat (al + k)) = Some (text ! k) \<and> \<not> writable m' (base + of_nat (al + k))"
proof -
  define L where "L = emitted_locals (2 ^ p) (of_nat (length text))"
  let ?d = "data_segment L" and ?t = "text_segment L" and ?img = "padded os file"
  obtain zs where img: "?img = concat (elf_chunks L text) @ zs" by (simp add: padded_def f L_def)
  have ok: "bf_locals_ok L text" unfolding L_def by (rule emitted_ok [OF p(2) t])
  note L = bf_locals [OF ok] and seg = emitted_segments [OF p(2) t(2) L_def]
  have len: "468 + length text \<le> length ?img"
    unfolding img using length_elf_chunks [of L "text"] by simp
  have "length expected_ident = 9" by (simp add: expected_ident_def)
  moreover have "\<forall>i < length (bf_phdrs L). read_phdr ?img (unat (e_phoff (bf_ehdr L)) + sizeof_phdr * i) = Inr (bf_phdrs L ! i)"
    using bf_phdr_read unfolding img by (simp add: bf_phdrs_def bf_ehdr_def)
  moreover have "loadable (bf_phdrs L) = [?d, ?t]" "\<forall>ph \<in> set (bf_phdrs L). p_type ph \<noteq> PT_INTERP" "executable ?t"
    by (simp_all add: loadable_def executable_def bf_phdrs_def data_segment_def text_segment_def attributes_segment_def
        PT_LOAD_def PT_INTERP_def PT_RISCV_ATTRIBUTES_def PF_R_def PF_X_def)
  moreover have "p < 32" using p(2) by simp
  ultimately have hd: "elf_headers_ok p os file (bf_ehdr L) (bf_phdrs L) ?d [?t]"
    unfolding elf_headers_ok_def Let_def
    using bf_ehdr_read [OF L(4,5), of "text" zs] seg len p(1)
    by (intro conjI) (simp_all add: img, simp_all add: bf_ehdr_def bf_phdrs_def EM_RISCV_def sizeof_phdr_def)
  have rel: "relocates_neutrally nd ?img (bf_ehdr L) (map (placed_at ?d) [?d, ?t])"
    using bf_relocations [OF ok img] by (simp add: bf_placed_def)
  note V = code_address_round [OF p(2)]
  have V0: "unat (insns_begin_virt L) = round_up (2 ^ p) 0x10C00" using V(1) by (simp add: L_def emitted_locals_def)
  then have "insns_begin_virt L \<noteq> 0" using V(2) by auto
  then have e: "e_entry (bf_ehdr L) = insns_begin_virt L" "\<not> e_entry (bf_ehdr L) = 0" by (simp_all add: bf_ehdr_def)
  from elf_loads [OF os(1,2) hd rel os(3,4), of exe m] e(2) obtain exe' m'
    where r: "loader_read_elf nd os fd exe m = Inr (0, exe', m')" "exe_mem exe' = base"
      "entrypoint exe' = ucast (e_entry (bf_ehdr L) - p_vaddr ?d)"
      "\<forall>ph \<in> {?d, ?t}. \<forall>k < unat (p_memsz ph).
         (p_flags ph AND PF_R \<noteq> 0 \<longrightarrow> cells m' (base + of_nat (image_offset ?d ph + k)) = Some (segment_byte ?img ph k))
         \<and> writable m' (base + of_nat (image_offset ?d ph + k)) = (p_flags ph AND PF_W \<noteq> 0)"
    by auto
  have fl: "p_flags ?d AND PF_R \<noteq> 0" "p_flags ?d AND PF_W \<noteq> 0" "p_flags ?t AND PF_R \<noteq> 0" "p_flags ?t AND PF_W = 0"
    "unat (p_memsz ?d) = 0xC00" "unat (p_memsz ?t) = length text" "image_offset ?d ?d = 0" "p_vaddr ?d = 0x10000"
    using L(2,3) by (simp_all add: data_segment_def text_segment_def PF_R_def PF_W_def PF_X_def image_offset_def)
  have "unat (insns_begin_virt L - 0x10000) = al" using bf_find(3) [OF ok] seg(5) al by simp
  then have "entrypoint exe' = of_nat al"
    using r(3) e(1) fl(8) by (metis of_nat_unat ucast_id unat_ucast_u64)
  moreover have "cells m' (base + of_nat k) = Some 0 \<and> writable m' (base + of_nat k)" if "k < 0xC00" for k
    using r(4) [rule_format, of ?d k] fl that seg(9) by (simp add: segment_byte_def)
  moreover have "cells m' (base + of_nat (al + k)) = Some (text ! k) \<and> \<not> writable m' (base + of_nat (al + k))"
    if k: "k < length text" for k
  proof -
    let ?cs = "elf_chunks L text"
    have "length (concat (take 12 ?cs)) = 468" "?cs ! 12 = text" by (simp_all add: elf_chunks_def Let_def)
    then have "read_range ?img (468 + k) 1 = Inr (take 1 (drop k text))"
      using read_chunk [of 12 ?cs k 1 "468 + k" zs] elf_chunks_headed(2) k img by simp
    then have "?img ! (468 + k) = text ! k"
      using k by (simp add: read_range_def take_Suc_conv_app_nth hd_drop_conv_nth split: if_splits)
    then show ?thesis
      using r(4) [rule_format, of ?t k] fl k seg(5-7) al by (simp add: segment_byte_def)
  qed
  ultimately show thesis using r(1,2) by (intro that) auto
qed

end
