(* ===== verification/Cpu_Cli.thy ===== *)
theory Cpu_Cli
  imports C_String Interpret Loader
begin

text \<open>
  cpu.c: the command line of the emulator.  \<open>parse_options\<close> reads the arguments,
  \<open>cpu_main\<close> is \<open>main\<close>: it loads the file in the chosen mode and interprets it.  The
  member \<open>wants_help\<close> is not initialised by the source, so what it held before is a
  parameter.  The messages are values, in the order they are printed; the text of the
  usage message is not.
\<close>

section \<open>\<open>strtoull\<close> with base 0\<close>

text \<open>
  White space, a sign, a prefix that chooses the base, digits as far as they go; a value out
  of range gives \<open>ULLONG_MAX\<close>, a minus sign negates.
\<close>

definition digit_value :: "char \<Rightarrow> nat option" where
  "digit_value c =
     (let n = of_char c in
      if 48 \<le> n \<and> n < 58 then Some (n - 48)
      else if 97 \<le> n \<and> n < 123 then Some (n - 87)
      else if 65 \<le> n \<and> n < 91 then Some (n - 55) else None)"

definition is_digit :: "nat \<Rightarrow> char \<Rightarrow> bool" where
  "is_digit base c = (case digit_value c of Some d \<Rightarrow> d < base | None \<Rightarrow> False)"

definition is_space :: "char \<Rightarrow> bool" where
  "is_space c = (let n = of_char c :: nat in n = 32 \<or> 9 \<le> n \<and> n \<le> 13)"

definition digits_value :: "nat \<Rightarrow> string \<Rightarrow> nat" where
  "digits_value base s = foldl (\<lambda>acc c. acc * base + the (digit_value c)) 0 (takeWhile (is_digit base) s)"

definition magnitude :: "string \<Rightarrow> nat" where
  "magnitude s =
     (if 3 \<le> length s \<and> s ! 0 = CHR ''0'' \<and> s ! 1 \<in> {CHR ''x'', CHR ''X''} \<and> is_digit 16 (s ! 2)
      then digits_value 16 (drop 2 s)
      else if s \<noteq> [] \<and> hd s = CHR ''0'' then digits_value 8 s
      else digits_value 10 s)"

definition ULLONG_MAX :: u64 where "ULLONG_MAX = - 1"

definition strtoull :: "string \<Rightarrow> u64" where
  "strtoull s =
     (let s = dropWhile is_space s;
          neg = (s \<noteq> [] \<and> hd s = CHR ''-'');
          n = magnitude (if s \<noteq> [] \<and> hd s \<in> {CHR ''-'', CHR ''+''} then tl s else s)
      in if 2 ^ 64 \<le> n then ULLONG_MAX else if neg then - of_nat n else of_nat n)"

section \<open>Options\<close>

datatype input_mode = mode_raw | mode_elf

record cli_options =
  input_file :: "string option"
  mode :: input_mode
  empend_segment_size :: u64
  wants_help :: bool

text \<open>What is printed, to the standard output or the standard error.\<close>

datatype message =
    Found_input_file string
  | Extraneous_argument string
  | Mode_missing
  | Unknown_mode string
  | Size_missing
  | Bad_size
  | Unrecognised_flag string
  | Missing_input_file
  | Usage
  | Segment_needs_raw
  | Chosen_file string
  | Cannot_open

text \<open>The state of the loop: the options, \<open>res\<close>, and the messages so far.\<close>

record parser =
  parsed :: cli_options
  res :: bool
  said :: "message list"

definition fails :: "message \<Rightarrow> parser \<Rightarrow> parser" where
  "fails msg p = p\<lparr>res := False, said := said p @ [msg]\<rparr>"

definition positional :: "string \<Rightarrow> parser \<Rightarrow> parser" where
  "positional arg p =
     (let p = (if input_file (parsed p) \<noteq> None then fails (Extraneous_argument arg) p else p)
      in p\<lparr>said := said p @ [Found_input_file arg], parsed := (parsed p)\<lparr>input_file := Some arg\<rparr>\<rparr>)"

definition mode_option :: "string \<Rightarrow> parser \<Rightarrow> parser" where
  "mode_option m p =
     (if same_prefix m ''raw'' 4 then p\<lparr>parsed := (parsed p)\<lparr>mode := mode_raw\<rparr>\<rparr>
      else if same_prefix m ''elf'' 4 then p\<lparr>parsed := (parsed p)\<lparr>mode := mode_elf\<rparr>\<rparr>
      else fails (Unknown_mode m) p)"

definition segment_option :: "string \<Rightarrow> parser \<Rightarrow> parser" where
  "segment_option sz p =
     (let addend = strtoull sz;
          p = (if addend = ULLONG_MAX then fails Bad_size p else p)
      in p\<lparr>parsed := (parsed p)\<lparr>empend_segment_size := empend_segment_size (parsed p) + addend\<rparr>\<rparr>)"

definition finish :: "parser \<Rightarrow> parser" where
  "finish p = (if input_file (parsed p) = None then fails Missing_input_file p else p)"

fun parse_args :: "string list \<Rightarrow> parser \<Rightarrow> parser" where
  "parse_args [] p = finish p"
| "parse_args (arg # args) p =
     (if arg = [] \<or> hd arg \<noteq> CHR ''-'' then parse_args args (positional arg p)
      else if same_prefix arg ''--mode'' 7 then
        (case args of
           [] \<Rightarrow> finish (fails Mode_missing p)
         | m # args \<Rightarrow> parse_args args (mode_option m p))
      else if same_prefix arg ''--empend-segment'' 17 then
        (case args of
           [] \<Rightarrow> finish (fails Size_missing p)
         | sz # args \<Rightarrow> parse_args args (segment_option sz p))
      else if same_prefix arg ''--help'' 7 then
        p\<lparr>parsed := (parsed p)\<lparr>wants_help := True\<rparr>, res := True\<rparr>
      else parse_args args (fails (Unrecognised_flag arg) p))"

definition parse_options :: "string list \<Rightarrow> bool \<Rightarrow> parser" where
  "parse_options args junk_help =
     parse_args args
       \<lparr>parsed = \<lparr>input_file = None, mode = mode_elf, empend_segment_size = 0, wants_help = junk_help\<rparr>,
        res = True, said = []\<rparr>"

section \<open>\<open>main\<close>\<close>

text \<open>How a run ends: with an exit status, in the interpreter, in the loader, or not at all.\<close>

datatype outcome =
    Exit u32
  | Halted halt machine
  | Died halt
  | Runs_forever

text \<open>What the process finds: the files by name, and its uninitialised locals.\<close>

record process =
  open_file :: "string \<Rightarrow> u32 option"
  junk_help :: bool
  junk_exe :: loaded_exe
  memory_image :: host_mem

definition interpret_exe :: "bool \<Rightarrow> loaded_exe \<Rightarrow> host_mem \<Rightarrow> outcome" where
  "interpret_exe ndebug exe m =
     (case interpret_loop ndebug (exe_mem exe) m (ucast (entrypoint exe)) of
        Some (h, c) \<Rightarrow> Halted h c
      | None \<Rightarrow> Runs_forever)"

definition load_file ::
  "bool \<Rightarrow> os \<Rightarrow> cli_options \<Rightarrow> u32 \<Rightarrow> process \<Rightarrow> (u32 \<times> loaded_exe \<times> host_mem) result" where
  "load_file ndebug os opts fd pr =
     (case mode opts of
        mode_raw \<Rightarrow> Inr (loader_read_raw os fd (ucast (empend_segment_size opts)) (junk_exe pr) (memory_image pr))
      | mode_elf \<Rightarrow> loader_read_elf ndebug os fd (junk_exe pr) (memory_image pr))"

definition run_file :: "bool \<Rightarrow> os \<Rightarrow> process \<Rightarrow> cli_options \<Rightarrow> u32 \<Rightarrow> outcome" where
  "run_file ndebug os pr opts fd =
     (case load_file ndebug os opts fd pr of
        Inl h \<Rightarrow> Died h
      | Inr (code, exe, m) \<Rightarrow> if code \<noteq> 0 then Exit code else interpret_exe ndebug exe m)"

definition cpu_main ::
  "bool \<Rightarrow> os \<Rightarrow> process \<Rightarrow> string list \<Rightarrow> message list \<times> outcome" where
  "cpu_main ndebug os pr argv =
     (if argv = [] then ([], Exit 0)
      else
        let p = parse_options (tl argv) (junk_help pr); opts = parsed p; msgs = said p in
        if \<not> res p then (msgs @ [Usage], Exit 1)
        else if wants_help opts then (msgs @ [Usage], Exit 0)
        else if empend_segment_size opts \<noteq> 0 \<and> mode opts = mode_elf then (msgs @ [Segment_needs_raw], Exit 1)
        else
          let name = the (input_file opts); msgs = msgs @ [Chosen_file name] in
          case open_file pr name of
            None \<Rightarrow> (msgs @ [Cannot_open], Exit 1)
          | Some fd \<Rightarrow> (msgs, run_file ndebug os pr opts fd))"

end
