(* ===== verification/Cpu_Props.thy ===== *)
theory Cpu_Props
  imports Cpu_Cli Loader_Props
begin

text \<open>
  The command line as a list of options, written out and parsed back; and the ways in which
  \<open>main\<close> does something else than the options say.
\<close>

section \<open>Options and their words\<close>

datatype cli_arg =
    File string
  | Mode input_mode
  | Segment string

fun render :: "cli_arg \<Rightarrow> string list" where
  "render (File f) = [f]"
| "render (Mode mode_raw) = [''--mode'', ''raw'']"
| "render (Mode mode_elf) = [''--mode'', ''elf'']"
| "render (Segment sz) = [''--empend-segment'', sz]"

fun valid_arg :: "cli_arg \<Rightarrow> bool" where
  "valid_arg (File f) = (f = [] \<or> hd f \<noteq> CHR ''-'')"
| "valid_arg (Mode m) = True"
| "valid_arg (Segment sz) = (strtoull sz \<noteq> ULLONG_MAX)"

fun apply_arg :: "parser \<Rightarrow> cli_arg \<Rightarrow> parser" where
  "apply_arg p (File f) = positional f p"
| "apply_arg p (Mode m) = p\<lparr>parsed := (parsed p)\<lparr>mode := m\<rparr>\<rparr>"
| "apply_arg p (Segment sz) = segment_option sz p"

lemma flag_prefixes [simp]:
  "same_prefix ''--mode'' ''--mode'' 7"
  "\<not> same_prefix ''--empend-segment'' ''--mode'' 7"
  "same_prefix ''--empend-segment'' ''--empend-segment'' 17"
  "\<not> same_prefix ''--help'' ''--mode'' 7" "\<not> same_prefix ''--help'' ''--empend-segment'' 17"
  "same_prefix ''--help'' ''--help'' 7"
  "same_prefix ''raw'' ''raw'' 4" "\<not> same_prefix ''elf'' ''raw'' 4" "same_prefix ''elf'' ''elf'' 4"
  by (simp_all add: same_prefix_def)

lemma parse_render:
  assumes "valid_arg a"
  shows "parse_args (render a @ rest) p = parse_args rest (apply_arg p a)"
proof (cases a)
  case (Mode m)
  then show ?thesis by (cases m) (simp_all add: mode_option_def)
qed (use assms in simp_all)

lemma parse_renders:
  "\<forall>a \<in> set as. valid_arg a \<Longrightarrow>
   parse_args (concat (map render as) @ rest) p = parse_args rest (foldl apply_arg p as)"
  by (induction as arbitrary: p) (simp_all add: parse_render)

text \<open>What a list of options asks for.\<close>

definition files :: "cli_arg list \<Rightarrow> string list" where
  "files as = concat (map (\<lambda>a. case a of File f \<Rightarrow> [f] | _ \<Rightarrow> []) as)"

definition modes :: "cli_arg list \<Rightarrow> input_mode list" where
  "modes as = concat (map (\<lambda>a. case a of Mode m \<Rightarrow> [m] | _ \<Rightarrow> []) as)"

definition segment_bytes :: "cli_arg list \<Rightarrow> u64" where
  "segment_bytes as = sum_list (map (\<lambda>a. case a of Segment sz \<Rightarrow> strtoull sz | _ \<Rightarrow> 0) as)"

lemma apply_args:
  assumes "\<forall>a \<in> set as. valid_arg a" and "q = foldl apply_arg p as"
  shows "mode (parsed q) = last (mode (parsed p) # modes as)"
    "empend_segment_size (parsed q) = empend_segment_size (parsed p) + segment_bytes as"
    "wants_help (parsed q) = wants_help (parsed p)"
    "input_file (parsed q) = (if files as = [] then input_file (parsed p) else Some (last (files as)))"
    "res q \<longleftrightarrow> res p \<and> length (files as) \<le> (if input_file (parsed p) = None then 1 else 0)"
  using assms(1) unfolding assms(2)
proof (induction as arbitrary: p)
  case (Cons a as)
  { case 1 then show ?case using Cons.IH(1) [of "apply_arg p a"]
      by (cases a) (auto simp: modes_def positional_def segment_option_def fails_def Let_def) }
  { case 2 then show ?case using Cons.IH(2) [of "apply_arg p a"]
      by (cases a) (auto simp: segment_bytes_def positional_def segment_option_def fails_def Let_def) }
  { case 3 then show ?case using Cons.IH(3) [of "apply_arg p a"]
      by (cases a) (auto simp: positional_def segment_option_def fails_def Let_def) }
  { case 4 then show ?case using Cons.IH(4) [of "apply_arg p a"]
      by (cases a) (auto simp: files_def positional_def segment_option_def fails_def Let_def) }
  { case 5 then show ?case using Cons.IH(5) [of "apply_arg p a"]
      by (cases a) (auto simp: files_def positional_def segment_option_def fails_def Let_def) }
qed (simp_all add: modes_def segment_bytes_def files_def)

section \<open>What \<open>main\<close> does\<close>

text \<open>The outcome of a run of the program with these options.\<close>

definition options_of :: "cli_arg list \<Rightarrow> cli_options" where
  "options_of as = \<lparr>input_file = Some (hd (files as)), mode = last (mode_elf # modes as),
     empend_segment_size = segment_bytes as, wants_help = False\<rparr>"

definition outcome_of :: "bool \<Rightarrow> os \<Rightarrow> process \<Rightarrow> cli_arg list \<Rightarrow> outcome" where
  "outcome_of nd os pr as =
     (if length (files as) \<noteq> 1 then Exit 1
      else if segment_bytes as \<noteq> 0 \<and> last (mode_elf # modes as) = mode_elf then Exit 1
      else case open_file pr (hd (files as)) of
             None \<Rightarrow> Exit 1
           | Some fd \<Rightarrow> run_file nd os pr (options_of as) fd)"

lemma parse_back:
  assumes "\<forall>a \<in> set as. valid_arg a"
  shows "res (parse_options (concat (map render as)) help0) \<longleftrightarrow> length (files as) = 1"
    "length (files as) = 1 \<Longrightarrow> parsed (parse_options (concat (map render as)) help0)
       = (options_of as)\<lparr>wants_help := help0\<rparr>"
proof -
  let ?p = "\<lparr>parsed = \<lparr>input_file = None, mode = mode_elf, empend_segment_size = 0, wants_help = help0\<rparr>,
    res = True, said = []\<rparr>"
  let ?q = "foldl apply_arg ?p as"
  have q: "parse_options (concat (map render as)) help0 = finish ?q"
    using parse_renders [OF assms, of "[]" ?p] by (simp add: parse_options_def)
  note a = apply_args [OF assms refl, of ?p]
  have "files as \<noteq> [] \<Longrightarrow> length (files as) \<le> 1 \<Longrightarrow> last (files as) = hd (files as) \<and> length (files as) = 1"
    by (cases "files as") auto
  then show "res (parse_options (concat (map render as)) help0) \<longleftrightarrow> length (files as) = 1"
    "length (files as) = 1 \<Longrightarrow> parsed (parse_options (concat (map render as)) help0)
       = (options_of as)\<lparr>wants_help := help0\<rparr>"
    using a unfolding q by (auto simp: finish_def fails_def options_of_def intro!: cli_options.equality)
qed

lemma main_outcome:
  assumes "\<forall>a \<in> set as. valid_arg a"
  shows "snd (cpu_main nd os pr (prog # concat (map render as)))
    = (if junk_help pr \<and> length (files as) = 1 then Exit 0 else outcome_of nd os pr as)"
proof (cases "length (files as) = 1")
  case True
  have "options_of as\<lparr>wants_help := False\<rparr> = options_of as" by (simp add: options_of_def)
  with True parse_back [OF assms, of "junk_help pr"] show ?thesis
    by (cases "junk_help pr")
      (simp_all add: cpu_main_def outcome_of_def Let_def, simp_all add: options_of_def split: option.split)
qed (use parse_back(1) [OF assms, of "junk_help pr"] in \<open>simp add: cpu_main_def outcome_of_def Let_def\<close>)

text \<open>
  Property C19. Options survive the command line: written out in any order and number, with
  sizes that can be read, they parse without an error exactly when one file is named; then
  that file is chosen, the last mode wins (ELF if there is none), and the sizes of the
  segments add up modulo \<open>2 ^ 64\<close>.
\<close>

theorem options_parse_back:
  assumes "\<forall>a \<in> set as. valid_arg a"
  shows "(res (parse_options (concat (map render as)) help0) \<longleftrightarrow> length (files as) = 1)
    \<and> (length (files as) = 1 \<longrightarrow>
         parsed (parse_options (concat (map render as)) help0)
         = \<lparr>input_file = Some (hd (files as)), mode = last (mode_elf # modes as),
            empend_segment_size = segment_bytes as, wants_help = help0\<rparr>)"
  using parse_back [OF assms, of help0] by (simp add: options_of_def)

theorem options_parse_back_witness:
  "res (parse_options [''--mode'', ''raw'', ''a.out'', ''--empend-segment'', ''0x10'', ''--empend-segment'', ''3072''] False)
   \<and> empend_segment_size (parsed (parse_options [''--mode'', ''raw'', ''a.out'', ''--empend-segment'', ''0x10'',
       ''--empend-segment'', ''3072''] False)) = 3088"
proof -
  let ?as = "[Mode mode_raw, File ''a.out'', Segment ''0x10'', Segment ''3072'']"
  have s: "strtoull ''0x10'' = 16" "strtoull ''3072'' = 3072"
    by (simp_all add: strtoull_def magnitude_def digits_value_def is_digit_def digit_value_def is_space_def)
  then have "\<forall>a \<in> set ?as. valid_arg a" by (simp add: ULLONG_MAX_def)
  from options_parse_back [OF this, of False] s show ?thesis by (simp add: files_def segment_bytes_def)
qed

section \<open>Every command line\<close>

lemma parse_args_file:
  "res (parse_args args p) \<Longrightarrow> wants_help (parsed (parse_args args p))
    \<or> (\<exists>f. input_file (parsed (parse_args args p)) = Some f
         \<and> (f \<in> set args \<or> input_file (parsed p) = Some f))"
proof (induction args p rule: parse_args.induct)
  case (1 p)
  then show ?case by (auto simp: finish_def fails_def split: if_splits)
next
  case (2 arg args p)
  have named: "input_file (parsed (positional a p)) = Some a" for a by (simp add: positional_def Let_def)
  have keep: "input_file (parsed (mode_option a p)) = input_file (parsed p)"
    "input_file (parsed (segment_option a p)) = input_file (parsed p)"
    "input_file (parsed (fails msg p)) = input_file (parsed p)" for a msg
    by (simp_all add: mode_option_def segment_option_def fails_def Let_def)
  have ended: "\<not> res (finish (fails msg p))" for msg by (simp add: finish_def fails_def)
  define flag where "flag \<longleftrightarrow> \<not> (arg = [] \<or> hd arg \<noteq> CHR ''-'')"
  consider (pos) "\<not> flag"
    | (mode) "flag" "same_prefix arg ''--mode'' 7"
    | (seg) "flag" "\<not> same_prefix arg ''--mode'' 7" "same_prefix arg ''--empend-segment'' 17"
    | (hlp) "flag" "\<not> same_prefix arg ''--mode'' 7" "\<not> same_prefix arg ''--empend-segment'' 17" "same_prefix arg ''--help'' 7"
    | (bad) "flag" "\<not> same_prefix arg ''--mode'' 7" "\<not> same_prefix arg ''--empend-segment'' 17" "\<not> same_prefix arg ''--help'' 7"
    by blast
  then show ?case
  proof cases
    case pos
    then have c: "arg = [] \<or> hd arg \<noteq> CHR ''-''" by (simp add: flag_def)
    then have "parse_args (arg # args) p = parse_args args (positional arg p)" by simp
    with 2(1) [OF c] "2.prems" show ?thesis by (simp del: parse_args.simps add: named) blast
  next
    case mode
    note f = mode(1) [unfolded flag_def]
    show ?thesis
    proof (cases args)
      case Nil
      then have "parse_args (arg # args) p = finish (fails Mode_missing p)" using mode f by simp
      with "2.prems" ended show ?thesis by metis
    next
      case (Cons m args')
      then have e: "parse_args (arg # args) p = parse_args args' (mode_option m p)" using mode f by simp
      from 2(2) [OF f mode(2) Cons] "2.prems" show ?thesis unfolding e keep by (auto simp: Cons simp del: parse_args.simps)
    qed
  next
    case seg
    note f = seg(1) [unfolded flag_def]
    show ?thesis
    proof (cases args)
      case Nil
      then have "parse_args (arg # args) p = finish (fails Size_missing p)" using seg f by simp
      with "2.prems" ended show ?thesis by metis
    next
      case (Cons sz args')
      then have e: "parse_args (arg # args) p = parse_args args' (segment_option sz p)" using seg f by simp
      from 2(3) [OF f seg(2,3) Cons] "2.prems" show ?thesis unfolding e keep by (auto simp: Cons simp del: parse_args.simps)
    qed
  next
    case hlp
    then show ?thesis using hlp(1) [unfolded flag_def] by simp
  next
    case bad
    note f = bad(1) [unfolded flag_def]
    then have e: "parse_args (arg # args) p = parse_args args (fails (Unrecognised_flag arg) p)" using bad by simp
    from 2(4) [OF f bad(2-4)] "2.prems" show ?thesis unfolding e keep by (auto simp del: parse_args.simps)
  qed
qed

text \<open>
  Property C20. Whatever the arguments, options that are accepted name a file, one of the
  arguments themselves, unless help is wanted: \<open>main\<close> never prints or opens a null name.
\<close>

theorem accepted_options_name_a_file:
  assumes "res (parse_options args help0)" "\<not> wants_help (parsed (parse_options args help0))"
  shows "\<exists>f \<in> set args. input_file (parsed (parse_options args help0)) = Some f"
proof -
  let ?p = "\<lparr>parsed = \<lparr>input_file = None, mode = mode_elf, empend_segment_size = 0, wants_help = help0\<rparr>,
    res = True, said = []\<rparr>"
  show ?thesis using parse_args_file [of args ?p] assms by (auto simp: parse_options_def)
qed

theorem accepted_options_name_a_file_witness:
  "\<exists>f \<in> set [''--mode'', ''elf'', ''x'']. input_file (parsed (parse_options [''--mode'', ''elf'', ''x''] False)) = Some f"
  by (rule accepted_options_name_a_file)
    (simp_all add: parse_options_def mode_option_def positional_def finish_def)

lemma parse_args_help: "wants_help (parsed p) \<Longrightarrow> wants_help (parsed (parse_args args p))"
proof (induction args p rule: parse_args.induct)
  case (1 p)
  then show ?case by (simp add: finish_def fails_def)
next
  case (2 arg args p)
  have keep: "wants_help (parsed (positional a q)) = wants_help (parsed q)"
    "wants_help (parsed (mode_option a q)) = wants_help (parsed q)"
    "wants_help (parsed (segment_option a q)) = wants_help (parsed q)"
    "wants_help (parsed (fails msg q)) = wants_help (parsed q)"
    "wants_help (parsed (finish q)) = wants_help (parsed q)" for a msg q
    by (simp_all add: positional_def mode_option_def segment_option_def finish_def fails_def Let_def)
  show ?case
  proof (cases "arg = [] \<or> hd arg \<noteq> CHR ''-''")
    case True
    then have "parse_args (arg # args) p = parse_args args (positional arg p)" by simp
    with 2(1) [OF True] "2.prems" show ?thesis by (simp only: keep)
  next
    case flag: False
    show ?thesis
    proof (cases args)
      case Nil
      then have "parse_args (arg # args) p \<in> {finish (fails Mode_missing p), finish (fails Size_missing p),
          p\<lparr>parsed := (parsed p)\<lparr>wants_help := True\<rparr>, res := True\<rparr>, parse_args args (fails (Unrecognised_flag arg) p)}"
        using flag by simp
      then show ?thesis using "2.prems" Nil keep by (auto simp del: parse_args.simps(2))
    next
      case (Cons m args')
      consider (mode) "same_prefix arg ''--mode'' 7"
        | (seg) "\<not> same_prefix arg ''--mode'' 7" "same_prefix arg ''--empend-segment'' 17"
        | (hlp) "\<not> same_prefix arg ''--mode'' 7" "\<not> same_prefix arg ''--empend-segment'' 17" "same_prefix arg ''--help'' 7"
        | (bad) "\<not> same_prefix arg ''--mode'' 7" "\<not> same_prefix arg ''--empend-segment'' 17" "\<not> same_prefix arg ''--help'' 7"
        by blast
      then show ?thesis
      proof cases
        case mode
        then have "parse_args (arg # args) p = parse_args args' (mode_option m p)" using flag Cons by simp
        with 2(2) [OF flag mode Cons] "2.prems" show ?thesis by (simp only: keep)
      next
        case seg
        then have "parse_args (arg # args) p = parse_args args' (segment_option m p)" using flag Cons by simp
        with 2(3) [OF flag seg Cons] "2.prems" show ?thesis by (simp only: keep)
      next
        case hlp
        then show ?thesis using flag by simp
      next
        case bad
        then have "parse_args (arg # args) p = parse_args args (fails (Unrecognised_flag arg) p)" using flag by simp
        with 2(4) [OF flag bad] "2.prems" show ?thesis by (simp only: keep)
      qed
    qed
  qed
qed

text \<open>
  Property C21. \<open>wants_help\<close> is never initialised: when the stack happens to hold a nonzero
  byte there, every command line, whatever its arguments, ends with the usage as the last
  message and never opens a file; the exit status is 0 if the arguments are accepted, as
  well-formed options that name one file are, and 1 if they are not.  When the byte is zero,
  the outcome of such options is the one they ask for.
\<close>

theorem help_uninitialised:
  "(junk_help pr \<longrightarrow> cpu_main nd os pr (prog # args)
      = (said (parse_options args True) @ [Usage], Exit (if res (parse_options args True) then 0 else 1)))
   \<and> ((\<forall>a \<in> set as. valid_arg a) \<and> length (files as) = 1 \<longrightarrow>
        res (parse_options (concat (map render as)) True)
        \<and> (\<not> junk_help pr \<longrightarrow> snd (cpu_main nd os pr (prog # concat (map render as))) = outcome_of nd os pr as))"
proof -
  have "wants_help (parsed (parse_options args True))"
    unfolding parse_options_def by (rule parse_args_help) simp
  then have "junk_help pr \<longrightarrow> cpu_main nd os pr (prog # args)
      = (said (parse_options args True) @ [Usage], Exit (if res (parse_options args True) then 0 else 1))"
    by (auto simp: cpu_main_def Let_def)
  then show ?thesis using main_outcome [of as nd os pr prog] parse_back(1) [of as True] by simp
qed

definition demo_process :: "bool \<Rightarrow> process" where
  "demo_process help0 = \<lparr>open_file = (\<lambda>name. if name = ''a.out'' then Some 3 else None), junk_help = help0,
     junk_exe = no_exe, memory_image = no_mem\<rparr>"

theorem help_uninitialised_witness:
  "cpu_main False (demo_os []) (demo_process True) [''cpu'', ''missing'']
     = ([Found_input_file ''missing'', Usage], Exit 0)
   \<and> snd (cpu_main False (demo_os []) (demo_process False) [''cpu'', ''missing'']) = Exit 1"
proof -
  have v: "(\<forall>a \<in> set [File ''missing'']. valid_arg a) \<and> length (files [File ''missing'']) = 1"
    by (simp add: files_def)
  have p: "said (parse_options [''missing''] True) = [Found_input_file ''missing'']"
    by (simp add: parse_options_def positional_def finish_def fails_def)
  have j: "junk_help (demo_process True)" "\<not> junk_help (demo_process False)" by (simp_all add: demo_process_def)
  note h = help_uninitialised [of "demo_process True" False "demo_os []" "''cpu''" "[''missing'']" "[File ''missing'']"]
    help_uninitialised [of "demo_process False" False "demo_os []" "''cpu''" "[''missing'']" "[File ''missing'']"]
  have "outcome_of False (demo_os []) (demo_process False) [File ''missing''] = Exit 1"
    by (simp add: outcome_of_def files_def modes_def segment_bytes_def demo_process_def)
  with h v p j show ?thesis by simp
qed

text \<open>
  Property C22. The size of the data segment is a \<open>size_t\<close> on the command line and a
  \<open>u32\<close> in the loader: in raw mode, sizes that agree in the low 32 bits behave the same, so
  a multiple of 4 GiB asks for no data segment at all.
\<close>

theorem segment_size_truncated:
  assumes "valid_arg (File f)" "valid_arg (Segment sz)" "valid_arg (Segment sz')"
    "(ucast (strtoull sz) :: u32) = ucast (strtoull sz')"
  shows "snd (cpu_main nd os pr (prog # concat (map render [File f, Mode mode_raw, Segment sz])))
    = snd (cpu_main nd os pr (prog # concat (map render [File f, Mode mode_raw, Segment sz'])))"
proof -
  have "files [File f, Mode mode_raw, Segment sz] = [f]" "modes [File f, Mode mode_raw, Segment sz] = [mode_raw]"
    "segment_bytes [File f, Mode mode_raw, Segment sz] = strtoull sz" for sz
    by (simp_all add: files_def modes_def segment_bytes_def)
  then have "outcome_of nd os pr [File f, Mode mode_raw, Segment sz]
      = outcome_of nd os pr [File f, Mode mode_raw, Segment sz']"
    using assms(4) by (simp add: outcome_of_def options_of_def run_file_def load_file_def cong: option.case_cong)
  then show ?thesis
    using assms(1-3) main_outcome [of "[File f, Mode mode_raw, Segment sz]" nd os pr prog]
      main_outcome [of "[File f, Mode mode_raw, Segment sz']" nd os pr prog]
    by (simp add: files_def)
qed

theorem segment_size_truncated_witness:
  "snd (cpu_main False (demo_os []) (demo_process False) [''cpu'', ''a.out'', ''--mode'', ''raw'', ''--empend-segment'', ''4294967296''])
   = snd (cpu_main False (demo_os []) (demo_process False) [''cpu'', ''a.out'', ''--mode'', ''raw'', ''--empend-segment'', ''0''])"
proof -
  have s: "strtoull ''4294967296'' = 4294967296" "strtoull ''0'' = 0"
    by (simp_all add: strtoull_def magnitude_def digits_value_def is_digit_def digit_value_def is_space_def)
  then have v: "valid_arg (File ''a.out'')" "valid_arg (Segment ''4294967296'')" "valid_arg (Segment ''0'')"
    by (simp_all add: ULLONG_MAX_def)
  have "(ucast (4294967296 :: u64) :: u32) = 0" by simp
  then show ?thesis
    using segment_size_truncated [OF v, of False "demo_os []" "demo_process False" "''cpu''"] s by simp
qed

text \<open>
  \<open>--help\<close> wins over everything: after any options, even ones that are refused
  without it, and before anything else, it makes the program print the usage and exit
  with 0; no file is opened.
\<close>

theorem help_wins:
  assumes "\<forall>a \<in> set as. valid_arg a"
  shows "\<exists>msgs. cpu_main nd os pr (prog # concat (map render as) @ ''--help'' # rest) = (msgs @ [Usage], Exit 0)"
  using parse_renders [OF assms, of "''--help'' # rest"] by (simp add: cpu_main_def parse_options_def Let_def)

theorem help_wins_witness:
  "\<exists>msgs. cpu_main False (demo_os []) (demo_process False) [''cpu'', ''a'', ''b'', ''--help'', ''--mode'']
    = (msgs @ [Usage], Exit 0)"
  using help_wins [of "[File ''a'', File ''b'']" False "demo_os []" "demo_process False" "''cpu''" "[''--mode'']"]
  by simp

end
