(* ===== verification/Loader_Errors.thy ===== *)
theory Loader_Errors
  imports Loader_Elf Rv_Bits
begin

text \<open>
  Where the loader does not do what its comments say: its return code, the failures that
  return success, the distance kept between segments, and the bits of a patched \<open>lui\<close>.
\<close>

section \<open>The return code\<close>

definition returns_bool :: "(u32 \<times> loaded_exe \<times> host_mem) result \<Rightarrow> bool" where
  "returns_bool r \<longleftrightarrow> (\<forall>ret exe m. r = Inr (ret, exe, m) \<longrightarrow> ret = 0 \<or> ret = 1)"

lemma as_bool_one [simp]: "as_bool e = 1 \<longleftrightarrow> as_bool e \<noteq> 0"
  by (simp add: as_bool_def)

lemma returns_bool_simps [simp]:
  "returns_bool (Inl h)" "returns_bool (Inr (c, exe, m)) \<longleftrightarrow> c = 0 \<or> c = 1"
  by (simp_all add: returns_bool_def)

lemma returns_bool_bind: "(\<And>x. returns_bool (f x)) \<Longrightarrow> returns_bool (bind_r r f)"
  by (cases r) simp_all

lemma load_image_bool: "c = 0 \<or> c = 1 \<Longrightarrow> returns_bool (load_image nd os img h l c exe m)"
  by (auto simp: load_image_def Let_def intro!: returns_bool_bind split: sum.split reloc.split)

lemma load_segments_bool: "c = 0 \<or> c = 1 \<Longrightarrow> returns_bool (load_segments nd os img h segms c exe m)"
  by (simp add: load_segments_def Let_def load_image_bool)

lemma loader_read_elf_bool: "returns_bool (loader_read_elf nd os fd exe m)"
  by (auto simp: loader_read_elf_def Let_def intro!: returns_bool_bind load_segments_bool
      split: sum.split option.split)

text \<open>
  Property C23. \<open>code\<close> is a \<open>bool\<close>, so \<open>loader_read_elf\<close> never returns an error
  number: whatever fails, in the system or in the file, the caller sees 0 or 1.
\<close>

theorem elf_code_is_bool:
  assumes "loader_read_elf nd os fd exe m = Inr (ret, exe', m')"
  shows "ret = 0 \<or> ret = 1"
  using loader_read_elf_bool [of nd os fd exe m] assms by (auto simp: returns_bool_def)

theorem elf_code_is_bool_witness:
  "\<exists>ret exe' m'. loader_read_elf False ((demo_os [])\<lparr>fstat := \<lambda>_. Inl 13\<rparr>) 3 no_exe no_mem = Inr (ret, exe', m')
    \<and> (ret = 0 \<or> ret = 1) \<and> ret = 1"
proof -
  have "loader_read_elf False ((demo_os [])\<lparr>fstat := \<lambda>_. Inl 13\<rparr>) 3 no_exe no_mem = Inr (1, no_exe, no_mem)"
    by (simp add: loader_read_elf_def mmap_file_def as_bool_def)
  from this elf_code_is_bool [OF this] show ?thesis by blast
qed

section \<open>Failures that return success\<close>

text \<open>A file that passes the checks up to the program headers.\<close>

definition header_accepted :: "os \<Rightarrow> u32 \<Rightarrow> u8 list \<Rightarrow> elf32_ehdr \<Rightarrow> bool" where
  "header_accepted os fd file h \<longleftrightarrow>
     fstat os fd = Inr file \<and> (\<exists>a. mmap_shared os (of_nat (length file)) = Inr a)
     \<and> read_range (padded os file) 0 (length expected_ident) = Inr expected_ident
     \<and> read_ehdr (padded os file) = Inr h \<and> e_machine h = EM_RISCV \<and> e_entry h \<noteq> 0 \<and> e_phentsize h \<noteq> 0"

lemma nothing_loaded:
  assumes "header_accepted os fd file h"
    and "scan_phdrs (padded os file) (unat (e_phoff h)) (unat (e_phnum h)) [] False = Inr (Some (segms, False))"
  shows "loader_read_elf nd os fd exe m = Inr (0, exe, m)"
  using assms by (auto simp: header_accepted_def loader_read_elf_def mmap_file_def Let_def)

text \<open>
  Property C24. A file without an executable segment is reported on the standard error, but
  the code is not set: \<open>loader_read_elf\<close> returns 0, success, and leaves the structure it
  should fill in as it was.
\<close>

theorem no_segment_is_success:
  assumes "header_accepted os fd file h" "\<forall>ph \<in> set hs. p_type ph \<noteq> PT_INTERP \<and> \<not> (p_type ph = PT_LOAD \<and> executable ph)"
    and "unat (e_phnum h) = length hs"
    and "\<forall>i < length hs. read_phdr (padded os file) (unat (e_phoff h) + sizeof_phdr * i) = Inr (hs ! i)"
  shows "loader_read_elf nd os fd exe m = Inr (0, exe, m)"
proof (rule nothing_loaded [OF assms(1)])
  show "scan_phdrs (padded os file) (unat (e_phoff h)) (unat (e_phnum h)) [] False
      = Inr (Some (map fresh_segment (loadable hs), False))"
    unfolding assms(3) using scan_finds [OF assms(4), of "[]" False] assms(2) by (auto simp: loadable_def)
qed

text \<open>The demo file with no program headers at all.\<close>

definition empty_elf :: "u8 list" where
  "empty_elf = take 44 demo_elf @ 0 # drop 45 demo_elf"

lemma length_empty_elf: "length empty_elf = 88"
  by (simp add: empty_elf_def demo_elf_padded(2))

lemma empty_elf_reads:
  "read_range (empty_elf @ zs) 0 9 = Inr expected_ident"
  "read_ehdr (empty_elf @ zs) = Inr (demo_ehdr\<lparr>e_phnum := 0\<rparr>)"
  by (simp_all add: read_ehdr_def rd16_def rd32_def read_range_append length_empty_elf,
    simp_all add: empty_elf_def demo_elf_def demo_ehdr_def of_le16_def of_le32_def expected_ident_def)

theorem no_segment_is_success_witness:
  "loader_read_elf False (demo_os empty_elf) 3 no_exe no_mem = Inr (0, no_exe, no_mem)"
proof -
  have "padded (demo_os empty_elf) empty_elf = empty_elf @ replicate 4008 0" "length expected_ident = 9"
    by (simp_all add: padded_def pages_len_def demo_os_def length_empty_elf expected_ident_def)
  then have "header_accepted (demo_os empty_elf) 3 empty_elf (demo_ehdr\<lparr>e_phnum := 0\<rparr>)"
    using empty_elf_reads [of "replicate 4008 0"]
    by (simp add: header_accepted_def) (simp add: demo_os_def demo_ehdr_def EM_RISCV_def)
  from no_segment_is_success [OF this, of "[]"] show ?thesis by (simp add: demo_ehdr_def)
qed

section \<open>The distance between segments\<close>

text \<open>
  Property C25. The distance from the end of a segment to the next start is compared with a
  distance between starts, so the gap that is kept is too small: a segment that starts \<open>D\<close>
  bytes after one of \<open>m\<close> bytes is put (before alignment) only \<open>max m (D - m)\<close> bytes after
  it, which is right only for an empty or an adjacent segment.
\<close>

theorem gap_too_small:
  assumes "unat (p_vaddr ph) = unat (p_vaddr (phdr prev)) + D" "unat (p_memsz (phdr prev)) = m" "m \<le> D"
    and "next_off = mem_offset prev + ucast (p_memsz (phdr prev))" "unat (mem_offset prev) + D < 2 ^ 64"
  shows "unat (skip_gap next_off prev ph) = unat (mem_offset prev) + max m (D - m)
    \<and> (unat (skip_gap next_off prev ph) = unat (mem_offset prev) + D \<longleftrightarrow> m = 0 \<or> m = D)"
proof -
  let ?dbs = "ucast (p_vaddr ph - p_vaddr (phdr prev)) :: u64" and ?m = "ucast (p_memsz (phdr prev)) :: u64"
  let ?o = "mem_offset prev"
  have um: "unat ?m = m" using assms(2) by (simp add: unat_ucast_u64)
  have "p_vaddr (phdr prev) \<le> p_vaddr ph" using assms(1) by (simp add: word_le_nat_alt)
  then have dbs: "unat ?dbs = D" using assms(1) by (simp add: unat_ucast_u64 unat_sub)
  then have "?m \<le> ?dbs" using um assms(3) by (simp add: word_le_nat_alt)
  then have dets: "unat (?dbs - ?m) = D - m" using dbs um by (simp add: unat_sub)
  have lt: "unat ?o + unat ?m < 2 ^ LENGTH(64)" using assms(3,5) um by simp
  have n: "unat next_off = unat ?o + m" unfolding assms(4) using iffD1 [OF unat_add_lem lt] um by simp
  have cur: "next_off - ?o = ?m" using assms(4) by simp
  have "unat (skip_gap next_off prev ph) = unat ?o + max m (D - m)"
  proof (cases "m < D - m")
    case True
    then have less: "?m < ?dbs - ?m" using um dets by (simp add: word_less_nat_alt)
    then have x: "unat (?dbs - ?m - ?m) = D - m - m" using dets um unat_sub [OF less_imp_le [OF less]] by simp
    have lt: "unat next_off + unat (?dbs - ?m - ?m) < 2 ^ LENGTH(64)" using x n assms(5) True by simp
    show ?thesis using iffD1 [OF unat_add_lem lt] x n less cur True by (simp add: skip_gap_def Let_def)
  next
    case False
    then have "\<not> ?m < ?dbs - ?m" using um dets by (simp add: word_less_nat_alt)
    then show ?thesis using n cur False by (simp add: skip_gap_def Let_def)
  qed
  then show ?thesis using assms(3) by auto
qed

text \<open>
  Segments of one page at \<open>0x10000\<close> and \<open>0x20000\<close>: the second lands at \<open>0xF000\<close> of the
  image, 4 KiB too early.
\<close>

theorem gap_too_small_witness:
  "unat (skip_gap 0x1000 \<lparr>mem_offset = 0, phdr = demo_phdr\<lparr>p_vaddr := 0x10000, p_memsz := 0x1000\<rparr>\<rparr>
     (demo_phdr\<lparr>p_vaddr := 0x20000\<rparr>)) = 0xF000"
  using gap_too_small [of "demo_phdr\<lparr>p_vaddr := 0x20000\<rparr>"
      "\<lparr>mem_offset = 0, phdr = demo_phdr\<lparr>p_vaddr := 0x10000, p_memsz := 0x1000\<rparr>\<rparr>" "0x10000" "0x1000" "0x1000"]
  by simp

section \<open>Patching\<close>

text \<open>
  Property C26. The relocation \<open>R_RISCV_HI20\<close> of a \<open>lui\<close> without immediate loads the upper
  12 bits of the value only: the mask that should clear the low 12 bits clears 20.  The
  patched instruction gives the upper 20 bits exactly when bits 12 to 19 of the value are 0.
\<close>

theorem hi20_patch_drops_bits:
  assumes "read_upper_immediate insn = 0"
  shows "read_upper_immediate (patch_hi20 insn v) = v AND 0xFFF00000
    \<and> (read_upper_immediate (patch_hi20 insn v) = v AND 0xFFFFF000 \<longleftrightarrow> v AND 0xFF000 = 0)"
proof -
  have c: "(0xFFFFFFFFFFF00000 :: u32) = 0xFFF00000" by (simp add: word_unat_eq_iff)
  have "patch_hi20 insn v = insn OR (v AND 0xFFFFFFFFFFF00000)" by (simp add: patch_hi20_def)
  then have "patch_hi20 insn v = insn OR (v AND 0xFFF00000)" unfolding c .
  then have r: "read_upper_immediate (patch_hi20 insn v) = v AND 0xFFF00000"
    using assms by (simp add: read_upper_immediate_def bit.conj_disj_distrib2 and.assoc)
  have split: "v AND 0xFFFFF000 = (v AND 0xFFF00000) OR (v AND 0xFF000)"
    by (simp flip: bit.conj_disj_distrib)
  have "v AND 0xFF000 = (v AND 0xFFFFF000) AND 0xFF000" "(v AND 0xFFF00000) AND 0xFF000 = 0"
    by (simp_all add: and.assoc)
  with r split show ?thesis by (metis or.right_neutral)
qed

text \<open>\<open>lui s1, 0\<close> against the address \<open>0x12345678\<close>.\<close>

theorem hi20_patch_drops_bits_witness:
  "read_upper_immediate (patch_hi20 0x4B7 0x12345678) = 0x12300000"
  using hi20_patch_drops_bits [of "0x4B7" "0x12345678"] by (simp add: read_upper_immediate_def)

end
