(* ===== verification/Spec2Isabelle.thy ===== *)
theory Spec2Isabelle
  imports Interp_Forward Bf_Run Bf_Loads Cpu_Props Loader_Errors
begin

text \<open>
  A verification library for rv32isam: a RISC-V emulator (\<open>cpu\<close>), the loader that brings an
  executable into its memory, and a brainfuck compiler (\<open>bfc\<close>) that makes such executables.

  \<^bold>\<open>The programs.\<close>
  \<open>bfc\<close> reads a program from the standard input, compiles it in one pass into a growing byte
  buffer and writes \<open>a.out\<close>, as an ELF file or, with \<open>--raw\<close>, as bare code.
  \<open>cpu\<close> parses its command line, opens the file, has the loader map it (raw, with a zeroed
  data segment below the code, or as ELF, with segments, protections and relocations) and
  interprets it from the entry point, printing every instruction before it executes it.
  The programs share the encoding of instructions (rv/insn.h, rv/bits.h) and the bit
  arithmetic (common/).

  \<^bold>\<open>Which theory models what.\<close>
  \<^item> \<open>Prelude\<close>: common/types.h as words of the same width, bit fields, bytes of a word.
  \<^item> \<open>Bit_Math\<close>: common/bit_math.h (\<open>align_upwards\<close>, \<open>next_po2\<close>, \<open>max_po2\<close>).
  \<^item> \<open>Text_Out\<close>: common/log.h and the conversions of \<open>printf\<close> in use.
  \<^item> \<open>Insn\<close>, \<open>Rv_Bits\<close>: rv/insn.h (enumerations, packed views of an instruction) and rv/bits.h
    (immediates, sign extension).
  \<^item> \<open>Outcome\<close>, \<open>Step_Machine\<close>: how a run can stop, and the loops that step until they do.
  \<^item> \<open>Dasm\<close>: rv/dasm.c, the text printed for an instruction or the stop while printing it.
  \<^item> \<open>Machine\<close>, \<open>Interpret\<close>: interpret.c; the registers are a list of 32 words as in
    \<open>struct rv32i\<close> (the last one never used), the memory of the process a partial map from addresses to bytes with the
    write protection beside it; one definition per case of the switch, \<open>step\<close> the body of the
    loop, \<open>interpret_loop\<close> the loop.
  \<^item> \<open>Isa_Spec\<close>: no code, but the abstract specification of the emulator, RV32I as the manual
    has it.  \<open>Refinement\<close> relates the interpreter to it.  \<open>Interp_Safety\<close>, \<open>Interp_Frame\<close> and
    \<open>Interp_Forward\<close> hold what is true of every instruction word, supported or not.
  \<^item> \<open>Out_Buf\<close>: bfc/out.h and bfc/out.c; the buffer is the block behind its pointer, a length
    and a capacity.
  \<^item> \<open>Asm_Emit\<close>, \<open>Bf_Compile\<close>: the \<open>asm_\<close> functions of bfc.c and \<open>compile_stdin\<close> with its stack
    of open loops.  \<open>Bf_Run\<close>: the language, and what compiled programs do on the emulator.
  \<^item> \<open>C_String\<close>, \<open>Bf_Elf\<close>: \<open>emit_elf\<close>, \<open>emit_raw\<close> and \<open>main\<close> of bfc.c.  \<open>Bf_Image\<close> states the
    file that is written as a list of chunks, \<open>Bf_Loads\<close> reads it back as the loader does.
  \<^item> \<open>Elf_Format\<close>, \<open>Loader\<close>: the ELF structures, and loader.c with loader.h.  \<open>Loader_Props\<close>,
    \<open>Loader_Elf\<close>, \<open>Loader_Errors\<close> hold what the two loaders establish and where they fail.
  \<^item> \<open>Cpu_Cli\<close>, \<open>Cpu_Props\<close>: cpu.c, its command line and \<open>main\<close>.
  \<^item> This theory composes them: from the source text to the emulator's memory.

  \<^bold>\<open>How they interact.\<close>
  Each interface is a locale, interpreted on the code's definitions in the theory of the
  provider: \<open>register_file\<close> and \<open>byte_store\<close> (what the interpreter uses of its state),
  \<open>byte_sink\<close>, \<open>code_buffer\<close>, \<open>lifo\<close> and \<open>chunk_buffer\<close> (the compiler's views of its buffer: bytes,
  instructions to be patched, a stack, an ELF file whose headers are filled in later),
  \<open>step_invariant\<close>, \<open>step_simulation\<close> and \<open>lockstep\<close> (runs of two machines), and \<open>image_loader\<close> (what
  the emulator needs of a loader, given by the raw and by the ELF one).

  \<^bold>\<open>What is shown.\<close>
  \<^item> End to end: a compiled program, written to \<open>a.out\<close> in either mode and given to \<open>cpu\<close>, runs
    to its end or its first input or output, if it meets no loop before, and stops in that
    system call with the tape the language defines (\<open>elf_program_runs\<close>,
    \<open>raw_program_runs\<close>).
  \<^item> The emulator refines RV32I on the instructions it supports, step by step and for whole
    runs; every other valid instruction is refused by its assertion, an overflowing \<open>addi\<close>
    apart, which C leaves undefined; every step, on any word, touches exactly its footprint
    and logs what it executes; a changed byte was put there by a store; and code without
    backward jumps comes to an end.
  \<^item> The encodings: every immediate reader agrees with the manual, every \<open>asm_\<close> call decodes to
    the instruction asked for (\<open>asm_sb\<close> at displacement 0, the only one in use; it swaps the
    parts of any other), patched branches get their offset.
  \<^item> The compiler computes a recursively defined code generator, whatever uninitialised memory
    holds; the ELF writer produces the file of its layout; the loader rebuilds the image that a
    file describes; the command line is parsed back from its printed form.
  \<^item> Defects, each proved of the model of the code as it is: the wrong loop jumps, the swapped
    store offset, \<open>srai\<close> run as \<open>srli\<close>, the buffer that shrinks past 2 GiB, failures of the
    loader that return success, the option that is read uninitialised, and others.

  \<^bold>\<open>Parameters, bounds and fuel.\<close>
  What the sources call and do not contain is a parameter: \<open>platform\<close> (\<open>__builtin_clz(0)\<close>, the
  contents of fresh memory, whether \<open>realloc\<close> succeeds), \<open>os\<close> (mapping, protecting, the size of
  a page, the contents of a file), \<open>out_file\<close> (opening and writing \<open>a.out\<close>), \<open>process\<close> (opening
  the input, what uninitialised variables and the memory hold), \<open>ndebug\<close> (whether assertions are
  compiled out) and \<open>left_first\<close> (an order of evaluation that C leaves open).
  Undefined behaviour of C is a value of \<open>halt\<close>, never a branch that is missing; it means
  that C promises nothing from there on, not that the program stops, and the properties
  that meet it say so.  A shift of 1 into the sign bit (\<open>next_po2\<close>) has its usual value.
  Buffers are below 2 GiB (where the code's arithmetic breaks, which is proved too); the ELF
  file adds at most 611 bytes to the code; pages have 4 bytes to 64 KiB in ELF mode, so that the
  addresses of the relocations keep their value; guest addresses are below \<open>guest_limit\<close>,
  since the interpreter adds sign-extended offsets to a 64-bit pointer.  No definition that
  a property rests on needs fuel: loops of the code are structural or have a measure, and the
  interpreter's endless loop is a \<open>partial_function\<close>, \<open>None\<close> when it never returns.

  \<^bold>\<open>Not modelled.\<close>
  sam.c (it prints one fixed line), the banner the interpreter prints once, the text of the
  usage message, the loader's log lines (with the section and symbol names
  they read out of the file) and the texts of error numbers, and the freeing of
  memory and closing of files at exit.  \<open>asm_jal\<close> is declared in bfc.c and never defined.
  The runs of compiled programs are not followed into a loop, since their jumps are wrong
  (\<open>loop_jumps_wrong\<close>), nor past a system call, since the emulator implements none.
\<close>

section \<open>From brainfuck source to the emulator's memory\<close>

text \<open>The raw image in memory, as the guest sees it.\<close>

lemma guest_sees:
  assumes "unat al + k < guest_limit"
  shows "xmem (hart_of (start_machine base m al)) (al + of_nat k) = cells m (base + of_nat (unat al + k))"
    "xwr (hart_of (start_machine base m al)) (al + of_nat k) = writable m (base + of_nat (unat al + k))"
proof -
  have "guest_limit < 4294967296" by (simp add: guest_limit_def)
  with assms have u: "unat (al + of_nat k) = unat al + k" using u32_succ [of al k] by linarith
  have "(ucast (al + of_nat k) :: u64) = of_nat (unat (al + of_nat k))" by simp
  then have "(ucast (al + of_nat k) :: u64) = of_nat (unat al + k)" unfolding u .
  with assms u show
    "xmem (hart_of (start_machine base m al)) (al + of_nat k) = cells m (base + of_nat (unat al + k))"
    "xwr (hart_of (start_machine base m al)) (al + of_nat k) = writable m (base + of_nat (unat al + k))"
    by (simp_all add: host_addr_def start_machine_def)
qed

lemma multiple_of_4: "2 \<le> p \<Longrightarrow> 2 ^ p dvd n \<Longrightarrow> n mod 4 = 0" for n :: nat
proof -
  assume "2 \<le> p" "2 ^ p dvd n"
  moreover from this(1) have "(2 :: nat) ^ 2 dvd 2 ^ p" by (rule le_imp_power_dvd)
  ultimately have "(2 :: nat) ^ 2 dvd n" by (blast intro: dvd_trans)
  then show ?thesis by simp
qed

section \<open>The contract between loader and emulator\<close>

text \<open>
  Where a loader is called: the system and the descriptor, the size of a page as a power of
  two, where the system maps (the file in raw mode, the image in ELF mode), and the bytes of
  data that are asked for.
\<close>

record load_env =
  system :: os
  descriptor :: u32
  page_bits :: nat
  mapped_at :: u64
  tape_bytes :: u32

text \<open>An image for the emulator: zeroed, writable cells at its start, and the code at \<open>al\<close>, read-only.\<close>

definition code_mapped :: "u32 \<Rightarrow> u32 \<Rightarrow> u8 list \<Rightarrow> loaded_exe \<Rightarrow> host_mem \<Rightarrow> bool" where
  "code_mapped cells_len al text exe m \<longleftrightarrow>
     ucast (entrypoint exe) = al \<and> exe_mem exe AND 3 = 0 \<and> al AND 3 = 0
     \<and> unat cells_len \<le> unat al \<and> unat al + length text \<le> guest_limit
     \<and> (\<forall>k < unat cells_len. cells m (exe_mem exe + of_nat k) = Some 0 \<and> writable m (exe_mem exe + of_nat k))
     \<and> (\<forall>k < length text. cells m (exe_mem exe + of_nat (unat al + k)) = Some (text ! k)
          \<and> \<not> writable m (exe_mem exe + of_nat (unat al + k)))"

text \<open>
  What the emulator needs of a loader: in a good environment it returns 0 and an image with
  the given code.  Then compiled programs run as the language says.
\<close>

locale image_loader =
  fixes load :: "load_env \<Rightarrow> loaded_exe \<Rightarrow> host_mem \<Rightarrow> (u32 \<times> loaded_exe \<times> host_mem) result"
    and good :: "load_env \<Rightarrow> u8 list \<Rightarrow> bool"
    and code_at :: "load_env \<Rightarrow> u32"
  assumes loads: "good e text \<Longrightarrow> \<exists>exe' m'. load e exe m = Inr (0, exe', m')
    \<and> code_mapped (tape_bytes e) (code_at e) text exe' m'"
begin

lemma program_runs:
  assumes compiler: "\<forall>c. grants pf c" "\<forall>p \<in> set ps. remarks_ok p" "4 * length (program_code ps) \<le> 2 ^ 31"
      "compile_stdin pf (program_text ps) zero_out = Inr s" and env: "good e (contents s)"
    and tape: "run (bf_step (\<lambda>a. a < tape_bytes e)) n (bf_start ps) = Some (r, s')" "stop_call r s' = Some (call, arg)"
  obtains exe' m' c where "load e exe m = Inr (0, exe', m')"
    "interpret_loop False (exe_mem exe') m' (ucast (entrypoint exe')) = Some (Assertion_failed ''not implemented'', c)"
    "\<forall>a < tape_bytes e. xmem (hart_of c) a = Some (tape s' a)" "xreg (hart_of c) 17 = call" "xreg (hart_of c) 10 = arg"
proof -
  obtain exe' m' where l: "load e exe m = Inr (0, exe', m')"
    "code_mapped (tape_bytes e) (code_at e) (contents s) exe' m'" using loads [OF env] by blast
  let ?al = "code_at e" and ?base = "exe_mem exe'"
  let ?c = "start_machine ?base m' ?al"
  have im: "ucast (entrypoint exe') = ?al" "?base AND 3 = 0" "?al AND 3 = 0"
    "unat (tape_bytes e) \<le> unat ?al" "unat ?al + length (contents s) \<le> guest_limit"
    "\<forall>k < unat (tape_bytes e). cells m' (?base + of_nat k) = Some 0 \<and> writable m' (?base + of_nat k)"
    "\<forall>k < length (contents s). cells m' (?base + of_nat (unat ?al + k)) = Some (contents s ! k)
       \<and> \<not> writable m' (?base + of_nat (unat ?al + k))"
    using l(2) by (simp_all add: code_mapped_def)
  have "bytes_at (contents s) ?al (hart_of ?c)"
    unfolding bytes_at_iff using im(5,7) guest_sees by simp
  moreover have "\<forall>a. a < tape_bytes e \<longrightarrow> unat a < guest_limit \<and> xwr (hart_of ?c) a \<and> xmem (hart_of ?c) a = Some 0"
  proof (intro allI impI)
    fix a assume "a < tape_bytes e"
    then have a: "unat a < unat (tape_bytes e)" by (simp add: word_less_nat_alt)
    then have "unat a < guest_limit" using im(4,5) by linarith
    then show "unat a < guest_limit \<and> xwr (hart_of ?c) a \<and> xmem (hart_of ?c) a = Some 0"
      using im(6) [rule_format, OF a] by (simp add: host_addr_def start_machine_def)
  qed
  ultimately obtain c where "interpret_loop False ?base m' ?al = Some (Assertion_failed ''not implemented'', c)"
    "\<forall>a < tape_bytes e. xmem (hart_of c) a = Some (tape s' a)" "xreg (hart_of c) 17 = call" "xreg (hart_of c) 10 = arg"
    using compiled_runs [OF compiler im(2,3) refl _ _ tape, of m'] by metis
  note run = this [folded im(1)]
  from l(1) run show thesis by (rule that)
qed

end

lemma ucast_of_nat_64: "(ucast (of_nat n :: u64) :: u32) = of_nat n"
  by (rule bit_word_eqI) (auto simp: bit_simps)

lemma dvd_unat_diff: "p < 32 \<Longrightarrow> 2 ^ p dvd unat a \<Longrightarrow> 2 ^ p dvd unat b \<Longrightarrow> 2 ^ p dvd unat (a - b)" for a b :: u64
proof -
  assume "p < 32" and ab: "2 ^ p dvd unat a" "2 ^ p dvd unat b"
  then have d: "(2 :: nat) ^ p dvd 2 ^ 64" by (intro le_imp_power_dvd) simp
  have "unat a = (unat (a - b) + unat b) mod 2 ^ 64" using unat_word_ariths(1) [of "a - b" b] by simp
  with ab d have "2 ^ p dvd unat (a - b) + unat b" by (metis dvd_mod_iff)
  with ab(2) show ?thesis by (metis dvd_add_left_iff)
qed

lemma popcount_power: "p < 32 \<Longrightarrow> popcount (ucast (2 ^ p :: u32)) = 1"
proof -
  assume p: "p < 32"
  have u: "[0..<64] = [0..<p] @ p # [Suc p..<64]"
    using p upt_add_eq_append [of 0 p "64 - p"] by (simp add: upt_conv_Cons)
  have "filter (bit (ucast (2 ^ p :: u32) :: u64)) [0..<64] = filter (\<lambda>k. k = p) [0..<64]"
    using p by (intro filter_cong) (auto simp: bit_simps)
  moreover have "filter (\<lambda>k. k = p) [0..<64] = [p]" unfolding u by (simp add: filter_empty_conv)
  ultimately show ?thesis by (simp add: popcount_def)
qed

text \<open>The two loaders.\<close>

definition raw_good :: "load_env \<Rightarrow> u8 list \<Rightarrow> bool" where
  "raw_good e file \<longleftrightarrow>
     (let os = system e; p = page_bits e; data = tape_bytes e; al = align_upwards data (2 ^ p) in
      page_size os = 2 ^ p \<and> 2 \<le> p \<and> p < 32 \<and> fstat os (descriptor e) = Inr file
      \<and> mmap_shared os (of_nat (length file)) = Inr (mapped_at e) \<and> 2 ^ p dvd unat (mapped_at e)
      \<and> 0 < data \<and> unat data + 2 ^ p \<le> 2 ^ 32
      \<and> mmap_fixed os (mapped_at e - ucast al) (ucast al) = Inr (mapped_at e - ucast al)
      \<and> unat al + length file \<le> guest_limit \<and> unat al + pages_len os (length file) \<le> 2 ^ 64)"

definition raw_code_at :: "load_env \<Rightarrow> u32" where
  "raw_code_at e = align_upwards (tape_bytes e) (2 ^ page_bits e)"

definition raw_load :: "load_env \<Rightarrow> loaded_exe \<Rightarrow> host_mem \<Rightarrow> (u32 \<times> loaded_exe \<times> host_mem) result" where
  "raw_load e exe m = Inr (loader_read_raw (system e) (descriptor e) (tape_bytes e) exe m)"

lemma raw_loader_contract:
  assumes "raw_good e text"
  shows "\<exists>exe' m'. raw_load e exe m = Inr (0, exe', m') \<and> code_mapped (tape_bytes e) (raw_code_at e) text exe' m'"
proof -
  let ?p = "page_bits e" and ?al = "raw_code_at e"
  have g: "page_size (system e) = 2 ^ ?p" "2 \<le> ?p" "?p < 32" "fstat (system e) (descriptor e) = Inr text"
    "mmap_shared (system e) (of_nat (length text)) = Inr (mapped_at e)" "2 ^ ?p dvd unat (mapped_at e)"
    "0 < tape_bytes e" "unat (tape_bytes e) + 2 ^ ?p \<le> 2 ^ 32"
    "mmap_fixed (system e) (mapped_at e - ucast ?al) (ucast ?al) = Inr (mapped_at e - ucast ?al)"
    "unat ?al + length text \<le> guest_limit" "unat ?al + pages_len (system e) (length text) \<le> 2 ^ 64"
    using assms by (simp_all add: raw_good_def raw_code_at_def Let_def)
  obtain exe' m' where l: "loader_read_raw (system e) (descriptor e) (tape_bytes e) exe m = (0, exe', m')"
    "exe_mem exe' = mapped_at e - ucast ?al" "entrypoint exe' = ucast ?al" "unat (tape_bytes e) \<le> unat ?al" "2 ^ ?p dvd unat ?al"
    "\<forall>k < unat ?al. cells m' (exe_mem exe' + of_nat k) = Some 0 \<and> writable m' (exe_mem exe' + of_nat k)"
    "\<forall>k < length text. cells m' (exe_mem exe' + of_nat (unat ?al + k)) = Some (text ! k)
       \<and> \<not> writable m' (exe_mem exe' + of_nat (unat ?al + k))"
    using raw_loads [OF g(1,3,4,5,7,8) raw_code_at_def g(9,11), of exe m] by metis
  have "(ucast (entrypoint exe') :: u32) = ?al"
    unfolding l(3) by (rule bit_word_eqI) (auto simp: bit_simps)
  moreover have "2 ^ ?p dvd unat (exe_mem exe')"
    unfolding l(2) by (rule dvd_unat_diff) (use g(3,6) l(5) in \<open>simp_all add: unat_ucast_u64\<close>)
  then have "exe_mem exe' AND 3 = 0" "?al AND 3 = 0"
    using multiple_of_4 [OF g(2)] l(5) by (simp_all only: and_3_zero)
  ultimately show ?thesis using l g(10) by (simp add: raw_load_def code_mapped_def)
qed

interpretation raw: image_loader raw_load raw_good raw_code_at
  by unfold_locales (rule raw_loader_contract)

text \<open>The ELF file of a code, and where it is loaded.\<close>

definition elf_file :: "nat \<Rightarrow> u8 list \<Rightarrow> u8 list" where
  "elf_file p text = concat (elf_chunks (emitted_locals (2 ^ p) (of_nat (length text))) text)"

definition elf_good :: "load_env \<Rightarrow> u8 list \<Rightarrow> bool" where
  "elf_good e text \<longleftrightarrow>
     (let os = system e; p = page_bits e; file = elf_file p text in
      page_size os = 2 ^ p \<and> 2 \<le> p \<and> p \<le> 16 \<and> fstat os (descriptor e) = Inr file
      \<and> (\<exists>a. mmap_shared os (of_nat (length file)) = Inr a) \<and> (\<forall>n. mmap_anon os n = Inr (mapped_at e))
      \<and> 2 ^ p dvd unat (mapped_at e) \<and> (\<forall>a n pr. mprotect os a n pr = None) \<and> tape_bytes e = 0xC00
      \<and> 8 \<le> length text \<and> length text + 611 \<le> 2 ^ 31 \<and> round_up (2 ^ p) 0xC00 + length text \<le> guest_limit)"

definition elf_code_at :: "load_env \<Rightarrow> u32" where
  "elf_code_at e = of_nat (round_up (2 ^ page_bits e) 0xC00)"

definition elf_load :: "bool \<Rightarrow> load_env \<Rightarrow> loaded_exe \<Rightarrow> host_mem \<Rightarrow> (u32 \<times> loaded_exe \<times> host_mem) result" where
  "elf_load nd e = loader_read_elf nd (system e) (descriptor e)"

lemma elf_loader_contract:
  assumes "elf_good e text"
  shows "\<exists>exe' m'. elf_load nd e exe m = Inr (0, exe', m') \<and> code_mapped (tape_bytes e) (elf_code_at e) text exe' m'"
proof -
  let ?p = "page_bits e" and ?al = "round_up (2 ^ page_bits e) 0xC00"
  obtain addr where g: "page_size (system e) = 2 ^ ?p" "?p \<le> 16" "8 \<le> length text" "length text + 611 \<le> 2 ^ 31"
    "fstat (system e) (descriptor e) = Inr (elf_file ?p text)"
    "mmap_shared (system e) (of_nat (length (elf_file ?p text))) = Inr addr"
    "\<forall>n. mmap_anon (system e) n = Inr (mapped_at e)" "\<forall>a n pr. mprotect (system e) a n pr = None"
    and h: "2 \<le> ?p" "2 ^ ?p dvd unat (mapped_at e)" "tape_bytes e = 0xC00" "?al + length text \<le> guest_limit"
    using assms by (auto simp: elf_good_def Let_def)
  from bf_elf_loads [OF g(1-4) elf_file_def g(5-8) refl, of nd exe m] obtain exe' m'
    where l: "loader_read_elf nd (system e) (descriptor e) exe m = Inr (0, exe', m')" "exe_mem exe' = mapped_at e"
      "entrypoint exe' = of_nat ?al"
      "\<forall>k < 0xC00. cells m' (mapped_at e + of_nat k) = Some 0 \<and> writable m' (mapped_at e + of_nat k)"
      "\<forall>k < length text. cells m' (mapped_at e + of_nat (?al + k)) = Some (text ! k) \<and> \<not> writable m' (mapped_at e + of_nat (?al + k))"
    by blast
  have al: "unat (elf_code_at e) = ?al"
    unfolding elf_code_at_def using h(4) by (intro unat_u32_of_nat) (simp add: guest_limit_def)
  have "(ucast (entrypoint exe') :: u32) = elf_code_at e" unfolding l(3) by (simp add: ucast_of_nat_64 elf_code_at_def)
  moreover have "0xC00 \<le> ?al" "2 ^ ?p dvd ?al" using round_up_least [of "2 ^ ?p" "0xC00"] by simp_all
  moreover from this(2) have "mapped_at e AND 3 = 0" "elf_code_at e AND 3 = 0"
    using multiple_of_4 [OF h(1)] h(2) al by (simp_all only: and_3_zero)
  ultimately show ?thesis using l h(3,4) al by (simp add: elf_load_def code_mapped_def)
qed

interpretation elf: image_loader "elf_load nd" elf_good elf_code_at for nd
  by unfold_locales (rule elf_loader_contract)

section \<open>What the compiler writes\<close>

text \<open>What the compiler leaves in \<open>a.out\<close> with \<open>--raw\<close>.\<close>

lemma compiled_raw:
  assumes "\<forall>c. grants pf c" "\<forall>p \<in> set ps. remarks_ok p" "4 * length (program_code ps) \<le> 2 ^ 31"
    and "opens fs" "\<forall>n. accepts fs n = Some n"
  obtains s where "compile_stdin pf (program_text ps) zero_out = Inr s"
    "contents s = le32s (program_code ps)"
    "bfc_main nd lf pf page fs [prog, ''--raw''] (program_text ps) = Inr (Some (contents s))"
proof -
  obtain s where s: "compile_stdin pf (program_text ps) zero_out = Inr s" "holds (program_code ps) s"
    using compile_stdin_effect [OF assms(1-3), of "[]"] by auto
  have "emit_raw fs (span_of s) = Some (contents s)"
    using assms(4,5) by (simp add: emit_raw_def span_of_def contents_def)
  moreover have "emit_mode_of [prog, ''--raw''] = emit_mode_raw" by (simp add: emit_mode_of_def same_prefix_def)
  ultimately show thesis
    using s by (intro that [OF s(1)]) (simp_all add: bfc_main_def holds_def)
qed

text \<open>What the compiler leaves in \<open>a.out\<close> without \<open>--raw\<close>, on a file system that takes everything.\<close>

lemma compiled_elf:
  assumes "\<forall>c. grants pf c" "\<forall>p \<in> set ps. remarks_ok p" "4 * length (program_code ps) + 611 \<le> 2 ^ 31"
    and "opens fs" "\<forall>n. accepts fs n = Some n" "p < 32"
  obtains s r where "compile_stdin pf (program_text ps) zero_out = Inr s"
    "contents s = le32s (program_code ps)"
    "bfc_main False False pf (2 ^ p) fs [prog] (program_text ps)
     = Inr (Some (elf_file p (contents s)))"
proof -
  obtain s where s: "compile_stdin pf (program_text ps) zero_out = Inr s" "holds (program_code ps) s"
    using compile_stdin_effect [OF assms(1,2), of "[]"] assms(3) by auto
  have "laid [contents s] s" using s(2) by (simp add: laid_def holds_def)
  note sp = span_laid [OF this]
  have len: "length (contents s) = 4 * length (program_code ps)" using s(2) by (simp add: holds_def)
  have "popcount (ucast (2 ^ p :: u32)) = 1" using assms(6) by (rule popcount_power)
  from emit_elf_effect [OF assms(1) disjI2 [OF this] sp(2) _ refl, of False] sp len assms(3) obtain t
    where t: "emit_elf False False pf (2 ^ p) (span_of s) = Inr (span_of t)"
      "laid (elf_chunks (emitted_locals (2 ^ p) (of_nat (length (contents s)))) (contents s)) t" by auto
  have "emit_raw fs (span_of t) = Some (concat (elf_chunks (emitted_locals (2 ^ p) (of_nat (length (contents s)))) (contents s)))"
    using span_laid(1) [OF t(2)] assms(4,5) by (simp add: emit_raw_def)
  with s(1) t(1) show thesis by (intro that [OF s(1)]) (use s(2) in \<open>simp_all add: holds_def bfc_main_def emit_mode_of_def elf_file_def\<close>)
qed

section \<open>From source text to the emulator's memory\<close>

text \<open>The emulator on a well-formed command line, once the file is loaded.\<close>

lemma cpu_main_loads:
  assumes "\<forall>a \<in> set as. valid_arg a" "files as = [f]" "\<not> junk_help pr" "open_file pr f = Some fd"
    and "segment_bytes as = 0 \<or> last (mode_elf # modes as) \<noteq> mode_elf"
    and "load_file nd os (options_of as) fd pr = Inr (0, exe, m)"
    and "interpret_loop nd (exe_mem exe) m (ucast (entrypoint exe)) = Some (h, c)"
  shows "snd (cpu_main nd os pr (prog # concat (map render as))) = Halted h c"
  using main_outcome [OF assms(1), of nd os pr prog] assms(2-)
  by (simp add: outcome_of_def run_file_def interpret_exe_def)

text \<open>
  Property C1. The whole path of the default mode: \<open>bfc\<close> writes \<open>a.out\<close>, an ELF file with
  the tape, the code and its relocations; \<open>cpu a.out\<close> accepts it, lays out and protects the
  image, applies the relocations, and runs the code from the entry point to the first system
  call, its end or an input or output (and stops there, since it does not implement it), with
  the 3 KiB of tape in memory exactly as the language defines it, and the call's number and
  first argument in their registers.  The hypotheses: a program that gets there on its tape
  without running a loop, memory is granted, the file is written in full, the mappings are
  page-aligned with pages from 4 bytes to 64 KiB (\<open>elf_good\<close>), and the stack does not happen
  to ask for help.
\<close>

theorem elf_program_runs:
  assumes "\<forall>c. grants pf c" "\<forall>p \<in> set ps. remarks_ok p" "4 * length (program_code ps) + 611 \<le> 2 ^ 31"
      "opens fs" "\<forall>n. accepts fs n = Some n"
    and "elf_good e (le32s (program_code ps))"
    and "valid_arg (File f)" "open_file pr f = Some (descriptor e)" "\<not> junk_help pr"
    and "run (bf_step (\<lambda>a. a < tape_bytes e)) n (bf_start ps) = Some (r, s')" "stop_call r s' = Some (call, arg)"
  shows "\<exists>file c. bfc_main False False pf (2 ^ page_bits e) fs [bfc] (program_text ps) = Inr (Some file)
    \<and> fstat (system e) (descriptor e) = Inr file
    \<and> snd (cpu_main False (system e) pr [cpu_name, f]) = Halted (Assertion_failed ''not implemented'') c
    \<and> (\<forall>a < tape_bytes e. xmem (hart_of c) a = Some (tape s' a))
    \<and> xreg (hart_of c) 17 = call \<and> xreg (hart_of c) 10 = arg"
proof -
  have p: "page_bits e < 32" and image: "fstat (system e) (descriptor e) = Inr (elf_file (page_bits e) (le32s (program_code ps)))"
    using assms(6) by (auto simp: elf_good_def Let_def)
  obtain s where s: "compile_stdin pf (program_text ps) zero_out = Inr s" "contents s = le32s (program_code ps)"
    "bfc_main False False pf (2 ^ page_bits e) fs [bfc] (program_text ps)
     = Inr (Some (elf_file (page_bits e) (contents s)))"
    using compiled_elf [OF assms(1-5) p] by metis
  have len: "4 * length (program_code ps) \<le> 2 ^ 31" using assms(3) by simp
  from elf.program_runs [OF assms(1,2) len s(1) assms(6) [folded s(2)] assms(10,11), of False "junk_exe pr" "memory_image pr"]
  obtain exe m c where r: "elf_load False e (junk_exe pr) (memory_image pr) = Inr (0, exe, m)"
      "interpret_loop False (exe_mem exe) m (ucast (entrypoint exe)) = Some (Assertion_failed ''not implemented'', c)"
      "\<forall>a < tape_bytes e. xmem (hart_of c) a = Some (tape s' a)" "xreg (hart_of c) 17 = call" "xreg (hart_of c) 10 = arg" .
  have o: "files [File f] = [f]" "modes [File f] = []" "segment_bytes [File f] = 0"
    by (simp_all add: files_def modes_def segment_bytes_def)
  then have "load_file False (system e) (options_of [File f]) (descriptor e) pr = Inr (0, exe, m)"
    using r(1) by (simp add: load_file_def options_of_def elf_load_def)
  moreover have "\<forall>a \<in> set [File f]. valid_arg a" using assms(7) by simp
  ultimately show ?thesis
    using cpu_main_loads [OF _ o(1) assms(9,8) _ _ r(2), where prog = cpu_name] o(3) r(3-) s(2,3) image by auto
qed

text \<open>
  Property C2. The same in raw mode: \<open>bfc --raw\<close>, then \<open>cpu\<close> with \<open>--mode raw\<close> and a
  data segment, whose size the command line gives in any form that \<open>strtoull\<close> reads.
\<close>

theorem raw_program_runs:
  assumes "\<forall>c. grants pf c" "\<forall>p \<in> set ps. remarks_ok p" "4 * length (program_code ps) \<le> 2 ^ 31"
      "opens fs" "\<forall>n. accepts fs n = Some n"
    and "raw_good e (le32s (program_code ps))"
    and "valid_arg (File f)" "open_file pr f = Some (descriptor e)" "\<not> junk_help pr"
      "strtoull sz = ucast (tape_bytes e)"
    and "run (bf_step (\<lambda>a. a < tape_bytes e)) n (bf_start ps) = Some (r, s')" "stop_call r s' = Some (call, arg)"
  shows "\<exists>file c. bfc_main nd lf pf page fs [bfc, ''--raw''] (program_text ps) = Inr (Some file)
    \<and> fstat (system e) (descriptor e) = Inr file
    \<and> snd (cpu_main False (system e) pr [cpu_name, f, ''--mode'', ''raw'', ''--empend-segment'', sz])
      = Halted (Assertion_failed ''not implemented'') c
    \<and> (\<forall>a < tape_bytes e. xmem (hart_of c) a = Some (tape s' a))
    \<and> xreg (hart_of c) 17 = call \<and> xreg (hart_of c) 10 = arg"
proof -
  have image: "fstat (system e) (descriptor e) = Inr (le32s (program_code ps))"
    using assms(6) by (simp add: raw_good_def Let_def)
  obtain s where s: "compile_stdin pf (program_text ps) zero_out = Inr s" "contents s = le32s (program_code ps)"
    "bfc_main nd lf pf page fs [bfc, ''--raw''] (program_text ps) = Inr (Some (contents s))"
    using compiled_raw [OF assms(1-5)] by metis
  from raw.program_runs [OF assms(1-3) s(1) assms(6) [folded s(2)] assms(11,12), of "junk_exe pr" "memory_image pr"]
  obtain exe m c where r: "raw_load e (junk_exe pr) (memory_image pr) = Inr (0, exe, m)"
      "interpret_loop False (exe_mem exe) m (ucast (entrypoint exe)) = Some (Assertion_failed ''not implemented'', c)"
      "\<forall>a < tape_bytes e. xmem (hart_of c) a = Some (tape s' a)" "xreg (hart_of c) 17 = call" "xreg (hart_of c) 10 = arg" .
  let ?as = "[File f, Mode mode_raw, Segment sz]"
  have d: "(ucast (ucast (tape_bytes e) :: u64) :: u32) = tape_bytes e" by (rule bit_word_eqI) (auto simp: bit_simps)
  have "\<not> bit (ucast (tape_bytes e) :: u64) 63" "bit ULLONG_MAX 63"
    by (auto simp: ULLONG_MAX_def bit_simps dest: bit_imp_le_length)
  then have "(ucast (tape_bytes e) :: u64) \<noteq> ULLONG_MAX" by metis
  then have v: "\<forall>a \<in> set ?as. valid_arg a" using assms(7,10) by auto
  have o: "files ?as = [f]" "modes ?as = [mode_raw]" "segment_bytes ?as = ucast (tape_bytes e)"
    using assms(10) by (simp_all add: files_def modes_def segment_bytes_def)
  then have "load_file False (system e) (options_of ?as) (descriptor e) pr = Inr (0, exe, m)"
    using r(1) d by (simp add: load_file_def options_of_def raw_load_def)
  from cpu_main_loads [OF v o(1) assms(9,8) _ this r(2), of cpu_name] o(2) r(3-) s(2,3) image show ?thesis by auto
qed

text \<open>\<open>+>-.[-]\<close> with the 3 KiB of data the compiler's comment asks for, on pages of 4 KiB.\<close>

definition demo_program :: "bf list" where
  "demo_program = [Plus, Gt, Minus, Dot, Loop [Minus]]"

definition demo_final :: bf_state where
  "demo_final = \<lparr>todo = [Dot, Loop [Minus]], tape = (\<lambda>_. 0)(0 := 1, 1 := - 1), ptr = 1\<rparr>"

definition whole_file :: out_file where
  "whole_file = \<lparr>opens = True, accepts = Some\<rparr>"

definition demo_env :: "u8 list \<Rightarrow> u64 \<Rightarrow> load_env" where
  "demo_env file addr = \<lparr>system = demo_os file, descriptor = 3, page_bits = 12, mapped_at = addr, tape_bytes = 0xC00\<rparr>"

lemma run_4: "run st 4 s = run st (Suc (Suc (Suc (Suc 0)))) s"
  by (simp add: eval_nat_numeral)

lemma demo_program_facts:
  "program_text demo_program = [43, 62, 45, 46, 91, 45, 93]" "length (program_code demo_program) = 23"
  "\<forall>p \<in> set demo_program. remarks_ok p" "\<forall>c. grants pf0 c"
  "run (bf_step (\<lambda>a. a < 0xC00)) 4 (bf_start demo_program) = Some (Output, demo_final)"
  "stop_call Output demo_final = Some (64, 1)"
  "opens whole_file" "\<forall>n. accepts whole_file n = Some n"
  "valid_arg (File ''a.out'')" "open_file (demo_process False) ''a.out'' = Some 3" "\<not> junk_help (demo_process False)"
  by (simp_all add: demo_program_def demo_final_def program_text_def program_code_def prologue_def epilogue_def
      add_code_def syscall_code_def loop_code_def pf0_def run_4 bf_start_def bf_step_def set_cell_def move_to_def whole_file_def demo_process_def)

lemma demo_tape:
  assumes "\<forall>a < 0xC00. xmem h a = Some (tape demo_final a)"
  shows "xmem h 0 = Some 1" "xmem h 1 = Some (- 1)" "xmem h 2 = Some 0"
proof -
  have "xmem h 0 = Some (tape demo_final 0)" "xmem h 1 = Some (tape demo_final 1)" "xmem h 2 = Some (tape demo_final 2)"
    by (rule assms [rule_format], simp)+
  then show "xmem h 0 = Some 1" "xmem h 1 = Some (- 1)" "xmem h 2 = Some 0" by (simp_all add: demo_final_def)
qed

lemma demo_env_fields [simp]:
  "system (demo_env file addr) = demo_os file" "descriptor (demo_env file addr) = 3"
  "page_bits (demo_env file addr) = 12" "mapped_at (demo_env file addr) = addr" "tape_bytes (demo_env file addr) = 0xC00"
  by (simp_all add: demo_env_def)

theorem elf_program_runs_witness:
  "\<exists>file c. bfc_main False False pf0 4096 whole_file [''bfc''] [43, 62, 45, 46, 91, 45, 93] = Inr (Some file)
    \<and> snd (cpu_main False (demo_os file) (demo_process False) [''cpu'', ''a.out''])
      = Halted (Assertion_failed ''not implemented'') c
    \<and> xmem (hart_of c) 0 = Some 1 \<and> xmem (hart_of c) 1 = Some (- 1) \<and> xmem (hart_of c) 2 = Some 0
    \<and> xreg (hart_of c) 17 = 64 \<and> xreg (hart_of c) 10 = 1"
proof -
  note demo = demo_program_facts
  let ?file = "elf_file 12 (le32s (program_code demo_program))"
  let ?e = "demo_env ?file 0x50000000"
  have len: "4 * length (program_code demo_program) + 611 \<le> 2 ^ 31" by (simp add: demo(2))
  have good: "elf_good ?e (le32s (program_code demo_program))"
    unfolding elf_good_def Let_def demo_env_fields
    by (intro conjI) (simp_all add: demo_os_def guest_limit_def round_up_def demo(2))
  have run: "run (bf_step (\<lambda>a. a < tape_bytes ?e)) 4 (bf_start demo_program) = Some (Output, demo_final)" "open_file (demo_process False) ''a.out'' = Some (descriptor ?e)"
    using demo by simp_all
  from elf_program_runs [OF demo(4,3) len demo(7,8) good demo(9) run(2) demo(11) run(1) demo(6), of "''bfc''" "''cpu''"]
  obtain "file" c where r: "bfc_main False False pf0 4096 whole_file [''bfc''] [43, 62, 45, 46, 91, 45, 93] = Inr (Some file)"
      "fstat (demo_os ?file) 3 = Inr file"
      "snd (cpu_main False (demo_os ?file) (demo_process False) [''cpu'', ''a.out'']) = Halted (Assertion_failed ''not implemented'') c"
      "\<forall>a < 0xC00. xmem (hart_of c) a = Some (tape demo_final a)"
      "xreg (hart_of c) 17 = 64" "xreg (hart_of c) 10 = 1" by (auto simp: demo(1))
  moreover have "file = ?file" using r(2) by (simp add: demo_os_def)
  ultimately show ?thesis using demo_tape [OF r(4)] by auto
qed

theorem raw_program_runs_witness:
  "\<exists>file c. bfc_main False False pf0 4096 whole_file [''bfc'', ''--raw''] [43, 62, 45, 46, 91, 45, 93] = Inr (Some file)
    \<and> snd (cpu_main False (demo_os file) (demo_process False)
        [''cpu'', ''a.out'', ''--mode'', ''raw'', ''--empend-segment'', ''3072''])
      = Halted (Assertion_failed ''not implemented'') c
    \<and> xmem (hart_of c) 0 = Some 1 \<and> xmem (hart_of c) 1 = Some (- 1) \<and> xmem (hart_of c) 2 = Some 0
    \<and> xreg (hart_of c) 17 = 64 \<and> xreg (hart_of c) 10 = 1"
proof -
  note demo = demo_program_facts
  let ?file = "le32s (program_code demo_program)"
  let ?e = "demo_env ?file 0x40000000"
  have len: "4 * length (program_code demo_program) \<le> 2 ^ 31" by (simp add: demo(2))
  have al: "align_upwards 0xC00 (2 ^ 12) = 4096" by (simp add: align_upwards_def)
  have good: "raw_good ?e ?file"
    unfolding raw_good_def Let_def demo_env_fields al
    by (intro conjI) (simp_all add: demo_os_def guest_limit_def demo(2) pages_len_def)
  have run: "run (bf_step (\<lambda>a. a < tape_bytes ?e)) 4 (bf_start demo_program) = Some (Output, demo_final)" "open_file (demo_process False) ''a.out'' = Some (descriptor ?e)"
    using demo by simp_all
  have sz: "strtoull ''3072'' = ucast (tape_bytes ?e)"
    by (simp add: strtoull_def magnitude_def digits_value_def is_digit_def digit_value_def is_space_def)
  from raw_program_runs [OF demo(4,3) len demo(7,8) good demo(9) run(2) demo(11) sz run(1) demo(6), of False False 4096 "''bfc''" "''cpu''"]
  obtain "file" c where r: "bfc_main False False pf0 4096 whole_file [''bfc'', ''--raw''] [43, 62, 45, 46, 91, 45, 93] = Inr (Some file)"
      "fstat (demo_os ?file) 3 = Inr file"
      "snd (cpu_main False (demo_os ?file) (demo_process False) [''cpu'', ''a.out'', ''--mode'', ''raw'', ''--empend-segment'', ''3072''])
        = Halted (Assertion_failed ''not implemented'') c"
      "\<forall>a < 0xC00. xmem (hart_of c) a = Some (tape demo_final a)"
      "xreg (hart_of c) 17 = 64" "xreg (hart_of c) 10 = 1" by (auto simp: demo(1))
  moreover have "file = ?file" using r(2) by (simp add: demo_os_def)
  ultimately show ?thesis using demo_tape [OF r(4)] by auto
qed

end
